theory Spec2Isabelle
  imports Main "HOL-Library.Sublist"
begin

section \<open>The graph data model (graph.ts)\<close>

text \<open>
  \<^verbatim>\<open>GraphNode.kind\<close> and \<^verbatim>\<open>GraphEdge.kind\<close> are closed unions of string literals;
  each becomes a datatype, with the literal it stands for given by a function.
\<close>

datatype NodeKind = Class | Interface | Protocol | Enum | Type_alias

datatype EdgeKind = Extends | Implements | Field_type | Method_param | Method_return | Import

fun node_kind_str :: "NodeKind \<Rightarrow> string" where
  "node_kind_str Class = ''class''"
| "node_kind_str Interface = ''interface''"
| "node_kind_str Protocol = ''protocol''"
| "node_kind_str Enum = ''enum''"
| "node_kind_str Type_alias = ''type_alias''"

fun edge_kind_str :: "EdgeKind \<Rightarrow> string" where
  "edge_kind_str Extends = ''extends''"
| "edge_kind_str Implements = ''implements''"
| "edge_kind_str Field_type = ''field_type''"
| "edge_kind_str Method_param = ''method_param''"
| "edge_kind_str Method_return = ''method_return''"
| "edge_kind_str Import = ''import''"

text \<open>
  The fields of \<^verbatim>\<open>GraphEdge\<close> are \<^verbatim>\<open>from\<close>, \<^verbatim>\<open>to\<close> and \<^verbatim>\<open>kind\<close>; the first is
  a keyword here and the last is taken by the node record, so they are \<open>efrom\<close>, \<open>eto\<close>
  and \<open>ekind\<close>.
\<close>

record GraphNode =
  name :: string
  kind :: NodeKind
  nfile :: string
  line :: int

record GraphEdge =
  efrom :: string
  eto :: string
  ekind :: EdgeKind

record DependencyGraph =
  nodes :: "GraphNode list"
  edges :: "GraphEdge list"
  scannedAt :: string
  commitSha :: "string option"

definition nodeKey :: "GraphNode \<Rightarrow> string" where
  "nodeKey node = name node @ '':'' @ node_kind_str (kind node)"

definition edgeKey :: "GraphEdge \<Rightarrow> string" where
  "edgeKey edge = efrom edge @ ''->'' @ eto edge @ '':'' @ edge_kind_str (ekind edge)"

section \<open>The insertion-ordered Map of the runtime\<close>

text \<open>
  A JavaScript \<^verbatim>\<open>Map\<close> iterates in the order in which its keys were first inserted;
  setting a key that is present replaces the value and keeps the position. It is an
  association list without repeated keys.
\<close>

type_synonym ('k, 'v) jsmap = "('k \<times> 'v) list"

fun map_has :: "('k, 'v) jsmap \<Rightarrow> 'k \<Rightarrow> bool" where
  "map_has [] k = False"
| "map_has ((k', v') # m) k = (if k' = k then True else map_has m k)"

fun map_set :: "('k, 'v) jsmap \<Rightarrow> 'k \<Rightarrow> 'v \<Rightarrow> ('k, 'v) jsmap" where
  "map_set [] k v = [(k, v)]"
| "map_set ((k', v') # m) k v = (if k' = k then (k, v) # m else (k', v') # map_set m k v)"

text \<open>\<^verbatim>\<open>new Map(entries)\<close>: the entries are set one after the other, from the left.\<close>

fun map_of_entries :: "('k, 'v) jsmap \<Rightarrow> ('k \<times> 'v) list \<Rightarrow> ('k, 'v) jsmap" where
  "map_of_entries m [] = m"
| "map_of_entries m ((k, v) # es) = map_of_entries (map_set m k v) es"

definition new_Map :: "('k \<times> 'v) list \<Rightarrow> ('k, 'v) jsmap" where
  "new_Map es = map_of_entries [] es"

section \<open>The diff engine (diff.ts)\<close>

record GraphDiff =
  addedNodes :: "GraphNode list"
  removedNodes :: "GraphNode list"
  addedEdges :: "GraphEdge list"
  removedEdges :: "GraphEdge list"

text \<open>
  Each of the four loops of \<^verbatim>\<open>diffGraphs\<close> walks one map in iteration order and
  pushes the value of every key that the other map does not have.
\<close>

definition absent_from :: "('k, 'w) jsmap \<Rightarrow> ('k, 'v) jsmap \<Rightarrow> 'v list" where
  "absent_from other m = map snd (filter (\<lambda>(key, v). \<not> map_has other key) m)"

definition diffGraphs :: "DependencyGraph \<Rightarrow> DependencyGraph \<Rightarrow> GraphDiff" where
  "diffGraphs before after =
     (let beforeNodes = new_Map (map (\<lambda>n. (nodeKey n, n)) (nodes before));
          afterNodes = new_Map (map (\<lambda>n. (nodeKey n, n)) (nodes after));
          beforeEdges = new_Map (map (\<lambda>e. (edgeKey e, e)) (edges before));
          afterEdges = new_Map (map (\<lambda>e. (edgeKey e, e)) (edges after))
      in \<lparr> addedNodes = absent_from beforeNodes afterNodes,
           removedNodes = absent_from afterNodes beforeNodes,
           addedEdges = absent_from beforeEdges afterEdges,
           removedEdges = absent_from afterEdges beforeEdges \<rparr>)"

definition isDiffEmpty :: "GraphDiff \<Rightarrow> bool" where
  "isDiffEmpty diff \<longleftrightarrow>
     length (addedNodes diff) = 0 \<and> length (removedNodes diff) = 0 \<and>
     length (addedEdges diff) = 0 \<and> length (removedEdges diff) = 0"

section \<open>Graph assembly (parse.ts)\<close>

text \<open>
  \<^verbatim>\<open>filterAndDedupe\<close> reads two things that are not among its arguments: the clock
  (\<^verbatim>\<open>new Date().toISOString()\<close>) and, when no commit id is passed, the output of
  \<^verbatim>\<open>git rev-parse HEAD\<close> run in the scanned directory. Both are fields of an explicit
  environment; \<open>git_head\<close> gives the trimmed output of the command in a directory, or
  \<open>None\<close> when the command throws.
\<close>

record Env =
  now_iso :: string
  git_head :: "string \<Rightarrow> string option"

definition getCommitSha :: "Env \<Rightarrow> string \<Rightarrow> string option" where
  "getCommitSha env dir = git_head env dir"

text \<open>The first loop: a node enters the map only when its name is not a key yet.\<close>

fun dedupe_nodes :: "(string, GraphNode) jsmap \<Rightarrow> GraphNode list \<Rightarrow> (string, GraphNode) jsmap" where
  "dedupe_nodes nodeMap [] = nodeMap"
| "dedupe_nodes nodeMap (node # rest) =
     (if \<not> map_has nodeMap (name node)
      then dedupe_nodes (map_set nodeMap (name node) node) rest
      else dedupe_nodes nodeMap rest)"

text \<open>
  The second loop, over \<^verbatim>\<open>allEdges\<close>, with its state: the set \<^verbatim>\<open>seenEdges\<close> of key
  strings and the array \<^verbatim>\<open>edges\<close>. The two \<^verbatim>\<open>continue\<close> statements come first, as
  in the source.
\<close>

fun filter_edges ::
  "string set \<Rightarrow> string set \<times> GraphEdge list \<Rightarrow> GraphEdge list \<Rightarrow> string set \<times> GraphEdge list" where
  "filter_edges nodeNames (seenEdges, out) [] = (seenEdges, out)"
| "filter_edges nodeNames (seenEdges, out) (edge # rest) =
     (if efrom edge \<notin> nodeNames \<or> eto edge \<notin> nodeNames
      then filter_edges nodeNames (seenEdges, out) rest
      else if efrom edge = eto edge
      then filter_edges nodeNames (seenEdges, out) rest
      else (let key = edgeKey edge in
            if key \<notin> seenEdges
            then filter_edges nodeNames (insert key seenEdges, out @ [edge]) rest
            else filter_edges nodeNames (seenEdges, out) rest))"

definition filterAndDedupe ::
  "Env \<Rightarrow> GraphNode list \<Rightarrow> GraphEdge list \<Rightarrow> string \<Rightarrow> string option \<Rightarrow> DependencyGraph" where
  "filterAndDedupe env allNodes allEdges dir sha =
     (let nodeMap = dedupe_nodes [] allNodes;
          ns = map snd nodeMap;
          nodeNames = set (map name ns);
          es = snd (filter_edges nodeNames ({}, []) allEdges)
      in \<lparr> nodes = ns, edges = es, scannedAt = now_iso env,
           commitSha = (case sha of Some s \<Rightarrow> Some s | None \<Rightarrow> getCommitSha env dir) \<rparr>)"

text \<open>
  The condition under which the second loop lets an edge through to the key test: both
  ends are names of the given set and the ends differ.
\<close>

definition edge_valid :: "string set \<Rightarrow> GraphEdge \<Rightarrow> bool" where
  "edge_valid nodeNames edge \<longleftrightarrow>
     efrom edge \<in> nodeNames \<and> eto edge \<in> nodeNames \<and> efrom edge \<noteq> eto edge"


text \<open>
  A closed form used in the proofs about both loops: the elements of a list whose key is
  neither in \<open>seen\<close> nor the key of an earlier element.
\<close>

fun firsts :: "('a \<Rightarrow> 'k) \<Rightarrow> 'k set \<Rightarrow> 'a list \<Rightarrow> 'a list" where
  "firsts key seen [] = []"
| "firsts key seen (x # xs) =
     (if key x \<in> seen then firsts key seen xs else x # firsts key (insert (key x) seen) xs)"



section \<open>The directory scan (parse.ts)\<close>

text \<open>
  What one file yields is a fragment: its nodes and its edges. A language's parse
  function takes the source text and the file path; it is tree-sitter at work and can
  throw, so it returns either the text of what was thrown (as \<^verbatim>\<open>${err}\<close> prints it) or
  a fragment.
\<close>

type_synonym Fragment = "GraphNode list \<times> GraphEdge list"

type_synonym ParseFn = "string \<Rightarrow> string \<Rightarrow> string + Fragment"

record LanguageEntry =
  extensions :: "string list"
  parse :: ParseFn

definition TYPESCRIPT_EXTENSIONS :: "string list" where
  "TYPESCRIPT_EXTENSIONS = [''.ts'', ''.tsx'']"

definition JAVA_EXTENSIONS :: "string list" where
  "JAVA_EXTENSIONS = [''.java'']"

definition SWIFT_EXTENSIONS :: "string list" where
  "SWIFT_EXTENSIONS = [''.swift'']"

text \<open>The table \<^verbatim>\<open>LANGUAGES\<close>, with the three parse functions as parameters.\<close>

definition LANGUAGES :: "ParseFn \<Rightarrow> ParseFn \<Rightarrow> ParseFn \<Rightarrow> LanguageEntry list" where
  "LANGUAGES parseTypeScript parseJava parseSwift =
     [\<lparr> extensions = TYPESCRIPT_EXTENSIONS, parse = parseTypeScript \<rparr>,
      \<lparr> extensions = JAVA_EXTENSIONS, parse = parseJava \<rparr>,
      \<lparr> extensions = SWIFT_EXTENSIONS, parse = parseSwift \<rparr>]"

definition endsWith :: "string \<Rightarrow> string \<Rightarrow> bool" where
  "endsWith s ext \<longleftrightarrow> length ext \<le> length s \<and> drop (length s - length ext) s = ext"

fun getParserForFile :: "LanguageEntry list \<Rightarrow> string \<Rightarrow> ParseFn option" where
  "getParserForFile [] filePath = None"
| "getParserForFile (lang # rest) filePath =
     (if list_ex (\<lambda>ext. endsWith filePath ext) (extensions lang)
      then Some (parse lang)
      else getParserForFile rest filePath)"

text \<open>
  The file system and the path functions of the runtime: \<open>readFileSync\<close> gives the
  content of a file or the text of what it throws.
\<close>

record FileSystem =
  readFileSync :: "string \<Rightarrow> string + string"
  resolve :: "string \<Rightarrow> string \<Rightarrow> string"
  relative :: "string \<Rightarrow> string \<Rightarrow> string"

text \<open>
  The state of the loop of \<^verbatim>\<open>scanDirectory\<close>: the arrays \<^verbatim>\<open>allNodes\<close> and
  \<^verbatim>\<open>allEdges\<close>, and the lines that \<^verbatim>\<open>console.error\<close> has written.
\<close>

record ScanState =
  nodes_acc :: "GraphNode list"
  edges_acc :: "GraphEdge list"
  stderr_out :: "string list"

text \<open>The body of the \<^verbatim>\<open>try\<close> block: read the file, then parse it.\<close>

definition parse_file :: "FileSystem \<Rightarrow> ParseFn \<Rightarrow> string \<Rightarrow> string \<Rightarrow> string + Fragment" where
  "parse_file fs parser absFile relFile =
     (case readFileSync fs absFile of
        Inl err \<Rightarrow> Inl err
      | Inr source \<Rightarrow> parser source relFile)"

definition warning :: "string \<Rightarrow> string \<Rightarrow> string" where
  "warning relFile err = ''Warning: Failed to parse '' @ relFile @ '': '' @ err"

text \<open>One turn of the loop: \<^verbatim>\<open>continue\<close> without a parser, otherwise \<^verbatim>\<open>try\<close> and \<^verbatim>\<open>catch\<close>.\<close>

definition scan_step ::
  "FileSystem \<Rightarrow> LanguageEntry list \<Rightarrow> string \<Rightarrow> ScanState \<Rightarrow> string \<Rightarrow> ScanState" where
  "scan_step fs langs absDir st file =
     (let absFile = resolve fs absDir file;
          relFile = relative fs absDir absFile
      in case getParserForFile langs file of
           None \<Rightarrow> st
         | Some parser \<Rightarrow>
             (case parse_file fs parser absFile relFile of
                Inr (ns, es) \<Rightarrow> st\<lparr> nodes_acc := nodes_acc st @ ns, edges_acc := edges_acc st @ es \<rparr>
              | Inl err \<Rightarrow> st\<lparr> stderr_out := stderr_out st @ [warning relFile err] \<rparr>))"

fun scan_files ::
  "FileSystem \<Rightarrow> LanguageEntry list \<Rightarrow> string \<Rightarrow> ScanState \<Rightarrow> string list \<Rightarrow> ScanState" where
  "scan_files fs langs absDir st [] = st"
| "scan_files fs langs absDir st (file # files) =
     scan_files fs langs absDir (scan_step fs langs absDir st file) files"

text \<open>
  \<^verbatim>\<open>scanDirectory\<close> from the point where \<^verbatim>\<open>glob\<close> has listed the files: the loop, then
  assembly without a revision id. The result is the graph and what was written to the
  error stream.
\<close>

definition scanDirectory ::
  "Env \<Rightarrow> FileSystem \<Rightarrow> LanguageEntry list \<Rightarrow> string \<Rightarrow> string list \<Rightarrow> DependencyGraph \<times> string list" where
  "scanDirectory env fs langs absDir files =
     (let st = scan_files fs langs absDir \<lparr> nodes_acc = [], edges_acc = [], stderr_out = [] \<rparr> files
      in (filterAndDedupe env (nodes_acc st) (edges_acc st) absDir None, stderr_out st))"

text \<open>What a file adds to the two arrays, used to state the loop's result in closed form.\<close>

definition file_fragment :: "FileSystem \<Rightarrow> LanguageEntry list \<Rightarrow> string \<Rightarrow> string \<Rightarrow> Fragment" where
  "file_fragment fs langs absDir file =
     (case getParserForFile langs file of
        None \<Rightarrow> ([], [])
      | Some parser \<Rightarrow>
          (case parse_file fs parser (resolve fs absDir file)
                  (relative fs absDir (resolve fs absDir file)) of
             Inr frag \<Rightarrow> frag
           | Inl err \<Rightarrow> ([], [])))"

section \<open>Syntax trees\<close>

text \<open>
  What the extractors use of a tree-sitter node: its type tag, its source text, whether
  it is a named node, the row where it starts, the field name under which its parent
  holds it (if any), and its children in order. \<^verbatim>\<open>type\<close> and \<^verbatim>\<open>text\<close> are keywords
  here, so the selectors are \<open>ntype\<close> and \<open>ntext\<close>.
\<close>

datatype SyntaxNode =
  SyntaxNode (ntype: string) (ntext: string) (isNamed: bool) (startRow: nat)
    (fieldName: "string option") (children: "SyntaxNode list")

definition childForFieldName :: "SyntaxNode \<Rightarrow> string \<Rightarrow> SyntaxNode option" where
  "childForFieldName node f = find (\<lambda>c. fieldName c = Some f) (children node)"

text \<open>A string in a condition is true when it is not empty.\<close>

definition truthy :: "string \<Rightarrow> bool" where
  "truthy s \<longleftrightarrow> s \<noteq> []"

section \<open>The Go extractor (languages/go.ts)\<close>

text \<open>
  The loops of \<^verbatim>\<open>extractTypeIdentifier\<close> return the text of the first child that is a
  \<^verbatim>\<open>type_identifier\<close>. The \<^verbatim>\<open>if\<close> statements test one tag against different
  literals, so at most one of them applies and they form a chain.
\<close>

definition first_type_identifier :: "SyntaxNode list \<Rightarrow> string option" where
  "first_type_identifier cs =
     (case find (\<lambda>c. ntype c = ''type_identifier'') cs of
        Some c \<Rightarrow> Some (ntext c)
      | None \<Rightarrow> None)"

definition extractTypeIdentifier :: "SyntaxNode \<Rightarrow> string option" where
  "extractTypeIdentifier node =
     (if ntype node = ''type_identifier'' then Some (ntext node)
      else if ntype node = ''pointer_type'' then first_type_identifier (children node)
      else if ntype node = ''slice_type'' \<or> ntype node = ''array_type'' \<or> ntype node = ''map_type''
      then first_type_identifier (children node)
      else if ntype node = ''qualified_type''
      then (case childForFieldName node ''name'' of
              Some nameNode \<Rightarrow> Some (ntext nameNode)
            | None \<Rightarrow> None)
      else None)"

text \<open>
  \<^verbatim>\<open>extractAllTypeIdentifiers\<close>: the inner \<^verbatim>\<open>walk\<close> stops at a node for which
  \<^verbatim>\<open>extractTypeIdentifier\<close> gives a non-empty string and descends otherwise.
\<close>

fun go_walk :: "SyntaxNode \<Rightarrow> string list" where
  "go_walk (SyntaxNode ty tx nm row fld cs) =
     (case extractTypeIdentifier (SyntaxNode ty tx nm row fld cs) of
        Some ident \<Rightarrow> if truthy ident then [ident] else concat (map go_walk cs)
      | None \<Rightarrow> concat (map go_walk cs))"

definition extractAllTypeIdentifiers :: "SyntaxNode \<Rightarrow> string list" where
  "extractAllTypeIdentifiers node = go_walk node"

definition BUILTIN_TYPES :: "string set" where
  "BUILTIN_TYPES =
     {''string'', ''int'', ''int8'', ''int16'', ''int32'', ''int64'',
      ''uint'', ''uint8'', ''uint16'', ''uint32'', ''uint64'',
      ''float32'', ''float64'', ''complex64'', ''complex128'',
      ''bool'', ''byte'', ''rune'', ''error'', ''any'',
      ''uintptr'', ''comparable''}"

definition isUserType :: "string \<Rightarrow> bool" where
  "isUserType n \<longleftrightarrow> n \<notin> BUILTIN_TYPES"

definition findChild :: "SyntaxNode \<Rightarrow> string \<Rightarrow> SyntaxNode option" where
  "findChild node ty = find (\<lambda>c. ntype c = ty) (children node)"

text \<open>The edges that one child of the field list adds in \<^verbatim>\<open>extractStruct\<close>.\<close>

definition struct_field_edges :: "string \<Rightarrow> SyntaxNode \<Rightarrow> GraphEdge list" where
  "struct_field_edges nameText field =
     (if ntype field \<noteq> ''field_declaration'' then []
      else case (childForFieldName field ''name'', childForFieldName field ''type'') of
        (None, Some typeChild) \<Rightarrow>
          (case extractTypeIdentifier typeChild of
             Some ident \<Rightarrow>
               if truthy ident \<and> isUserType ident
               then [\<lparr> efrom = nameText, eto = ident, ekind = Extends \<rparr>] else []
           | None \<Rightarrow> [])
      | (None, None) \<Rightarrow>
          map (\<lambda>c. \<lparr> efrom = nameText, eto = ntext c, ekind = Extends \<rparr>)
            (filter (\<lambda>c. ntype c = ''type_identifier'' \<and> isUserType (ntext c)) (children field))
      | (Some nameNode, Some typeChild) \<Rightarrow>
          map (\<lambda>ident. \<lparr> efrom = nameText, eto = ident, ekind = Field_type \<rparr>)
            (filter isUserType (extractAllTypeIdentifiers typeChild))
      | (Some nameNode, None) \<Rightarrow> [])"

definition extractStruct :: "string \<Rightarrow> SyntaxNode \<Rightarrow> string \<Rightarrow> nat \<Rightarrow> Fragment" where
  "extractStruct nameText typeNode filePath startRow' =
     (let ns = [\<lparr> name = nameText, kind = Class, nfile = filePath, line = int startRow' + 1 \<rparr>]
      in case (case childForFieldName typeNode ''fields'' of
                 Some fl \<Rightarrow> Some fl
               | None \<Rightarrow> findChild typeNode ''field_declaration_list'') of
           None \<Rightarrow> (ns, [])
         | Some fieldList \<Rightarrow> (ns, concat (map (struct_field_edges nameText) (children fieldList))))"

definition extractMethodEdges :: "SyntaxNode \<Rightarrow> string \<Rightarrow> GraphEdge list" where
  "extractMethodEdges method ownerName =
     (case childForFieldName method ''parameters'' of
        None \<Rightarrow> []
      | Some params \<Rightarrow>
          concat (map (\<lambda>param.
              if ntype param \<noteq> ''parameter_declaration'' then []
              else case childForFieldName param ''type'' of
                None \<Rightarrow> []
              | Some paramType \<Rightarrow>
                  map (\<lambda>ident. \<lparr> efrom = ownerName, eto = ident, ekind = Method_param \<rparr>)
                    (filter isUserType (extractAllTypeIdentifiers paramType)))
            (children params)))
     @ (case childForFieldName method ''result'' of
          None \<Rightarrow> []
        | Some result \<Rightarrow>
            map (\<lambda>ident. \<lparr> efrom = ownerName, eto = ident, ekind = Method_return \<rparr>)
              (filter isUserType (extractAllTypeIdentifiers result)))"

text \<open>The edges that one child of the interface type adds in \<^verbatim>\<open>extractInterface\<close>.\<close>

definition interface_child_edges :: "string \<Rightarrow> SyntaxNode \<Rightarrow> GraphEdge list" where
  "interface_child_edges nameText child =
     (if ntype child = ''constraint_elem''
      then map (\<lambda>c. \<lparr> efrom = nameText, eto = ntext c, ekind = Extends \<rparr>)
             (filter (\<lambda>c. ntype c = ''type_identifier'' \<and> isUserType (ntext c)) (children child))
      else [])
     @ (if ntype child = ''method_spec'' then extractMethodEdges child nameText else [])"

definition extractInterface :: "string \<Rightarrow> SyntaxNode \<Rightarrow> string \<Rightarrow> nat \<Rightarrow> Fragment" where
  "extractInterface nameText typeNode filePath startRow' =
     ([\<lparr> name = nameText, kind = Interface, nfile = filePath, line = int startRow' + 1 \<rparr>],
      concat (map (interface_child_edges nameText) (children typeNode)))"

text \<open>
  \<^verbatim>\<open>getReceiverType\<close> looks into the first \<^verbatim>\<open>parameter_list\<close> child only, and there
  returns at the first \<^verbatim>\<open>parameter_declaration\<close> that has a \<^verbatim>\<open>type\<close> field.
\<close>

definition getReceiverType :: "SyntaxNode \<Rightarrow> string option" where
  "getReceiverType method =
     (case find (\<lambda>c. ntype c = ''parameter_list'') (children method) of
        None \<Rightarrow> None
      | Some plist \<Rightarrow>
          (case find (\<lambda>p. ntype p = ''parameter_declaration'' \<and> childForFieldName p ''type'' \<noteq> None)
                  (children plist) of
             None \<Rightarrow> None
           | Some param \<Rightarrow>
               (case childForFieldName param ''type'' of
                  None \<Rightarrow> None
                | Some t \<Rightarrow> extractTypeIdentifier t)))"

text \<open>What one \<^verbatim>\<open>type_spec\<close> child of a type declaration yields.\<close>

definition type_spec_fragment :: "string \<Rightarrow> SyntaxNode \<Rightarrow> Fragment" where
  "type_spec_fragment filePath spec =
     (if ntype spec \<noteq> ''type_spec'' then ([], [])
      else case (childForFieldName spec ''name'', childForFieldName spec ''type'') of
        (Some nameNode, Some typeNode) \<Rightarrow>
          if ntype typeNode = ''struct_type''
          then extractStruct (ntext nameNode) typeNode filePath (startRow spec)
          else if ntype typeNode = ''interface_type''
          then extractInterface (ntext nameNode) typeNode filePath (startRow spec)
          else ([], [])
      | _ \<Rightarrow> ([], []))"

text \<open>What one child of the root yields in the Go \<^verbatim>\<open>parseSource\<close>.\<close>

definition go_top_fragment :: "string \<Rightarrow> SyntaxNode \<Rightarrow> Fragment" where
  "go_top_fragment filePath child =
     (let decls = (if ntype child = ''type_declaration''
                   then map (type_spec_fragment filePath) (children child) else []);
          methods = (if ntype child = ''method_declaration''
                     then (case getReceiverType child of
                             Some receiverType \<Rightarrow>
                               if truthy receiverType then extractMethodEdges child receiverType else []
                           | None \<Rightarrow> [])
                     else [])
      in (concat (map fst decls), concat (map snd decls) @ methods))"

definition go_parseSource :: "SyntaxNode \<Rightarrow> string \<Rightarrow> Fragment" where
  "go_parseSource root filePath =
     (let frags = map (go_top_fragment filePath) (children root)
      in (concat (map fst frags), concat (map snd frags)))"

section \<open>The Swift extractor (languages/swift.ts)\<close>

text \<open>
  The inner \<^verbatim>\<open>walk\<close> of \<^verbatim>\<open>extractTypeIdentifiers\<close>: at a \<^verbatim>\<open>user_type\<close> or a
  \<^verbatim>\<open>type_identifier\<close> it pushes one name (if it finds one), walks into the type
  arguments and returns; elsewhere it descends. No name is ever compared with a list of
  built-in types.
\<close>

fun swift_type_walk :: "SyntaxNode \<Rightarrow> string list" where
  "swift_type_walk (SyntaxNode ty tx nm row fld cs) =
     (if ty = ''user_type'' \<or> ty = ''type_identifier''
      then (case find (\<lambda>c. fieldName c = Some ''name'') cs of
              Some nameChild \<Rightarrow> [ntext nameChild]
            | None \<Rightarrow>
                if ty = ''type_identifier'' then [tx]
                else (case find (\<lambda>c. ntype c = ''type_identifier'') cs of
                        Some child \<Rightarrow> [ntext child]
                      | None \<Rightarrow> []))
           @ concat (map swift_type_walk (filter (\<lambda>c. ntype c = ''type_arguments'') cs))
      else concat (map swift_type_walk cs))"

definition swift_extractTypeIdentifiers :: "SyntaxNode \<Rightarrow> string list" where
  "swift_extractTypeIdentifiers node = swift_type_walk node"

definition is_inheritance :: "SyntaxNode \<Rightarrow> bool" where
  "is_inheritance child \<longleftrightarrow>
     ntype child = ''type_inheritance_clause'' \<or> ntype child = ''inheritance_specifier''"

text \<open>The edges that one member of a body adds in \<^verbatim>\<open>extractBodyMembers\<close>.\<close>

definition swift_member_edges :: "string \<Rightarrow> SyntaxNode \<Rightarrow> GraphEdge list" where
  "swift_member_edges ownerName member =
     (if ntype member = ''property_declaration'' \<or> ntype member = ''variable_declaration''
      then (case childForFieldName member ''type'' of
              None \<Rightarrow> []
            | Some typeAnnotation \<Rightarrow>
                map (\<lambda>typeId. \<lparr> efrom = ownerName, eto = typeId, ekind = Field_type \<rparr>)
                  (swift_extractTypeIdentifiers typeAnnotation))
           @ concat (map (\<lambda>child.
                if ntype child = ''pattern_binding''
                then (case childForFieldName child ''type'' of
                        None \<Rightarrow> []
                      | Some ta \<Rightarrow>
                          map (\<lambda>typeId. \<lparr> efrom = ownerName, eto = typeId, ekind = Field_type \<rparr>)
                            (swift_extractTypeIdentifiers ta))
                else [])
              (children member))
      else [])
     @ (if ntype member = ''function_declaration''
        then (case childForFieldName member ''return_type'' of
                None \<Rightarrow> []
              | Some returnType \<Rightarrow>
                  map (\<lambda>typeId. \<lparr> efrom = ownerName, eto = typeId, ekind = Method_return \<rparr>)
                    (swift_extractTypeIdentifiers returnType))
             @ (case childForFieldName member ''parameters'' of
                  None \<Rightarrow> []
                | Some params \<Rightarrow>
                    concat (map (\<lambda>param.
                        case childForFieldName param ''type'' of
                          None \<Rightarrow> []
                        | Some paramType \<Rightarrow>
                            map (\<lambda>typeId. \<lparr> efrom = ownerName, eto = typeId, ekind = Method_param \<rparr>)
                              (swift_extractTypeIdentifiers paramType))
                      (children params)))
        else [])"

definition swift_extractBodyMembers :: "SyntaxNode \<Rightarrow> string \<Rightarrow> GraphEdge list" where
  "swift_extractBodyMembers body ownerName =
     concat (map (swift_member_edges ownerName) (children body))"

definition swift_extractDeclaration :: "SyntaxNode \<Rightarrow> string \<Rightarrow> NodeKind \<Rightarrow> Fragment" where
  "swift_extractDeclaration node filePath k =
     (case childForFieldName node ''name'' of
        None \<Rightarrow> ([], [])
      | Some nameNode \<Rightarrow>
          ([\<lparr> name = ntext nameNode, kind = k, nfile = filePath, line = int (startRow node) + 1 \<rparr>],
           concat (map (\<lambda>child.
               if is_inheritance child
               then map (\<lambda>typeId. \<lparr> efrom = ntext nameNode, eto = typeId,
                                      ekind = (if k = Protocol then Extends else Implements) \<rparr>)
                      (swift_extractTypeIdentifiers child)
               else [])
             (children node))
           @ (case childForFieldName node ''body'' of
                None \<Rightarrow> []
              | Some body \<Rightarrow> swift_extractBodyMembers body (ntext nameNode))))"

text \<open>A declaration that yields its node only, when it has a name.\<close>

definition enum_fragment :: "SyntaxNode \<Rightarrow> string \<Rightarrow> Fragment" where
  "enum_fragment node filePath =
     (case childForFieldName node ''name'' of
        None \<Rightarrow> ([], [])
      | Some nameNode \<Rightarrow>
          ([\<lparr> name = ntext nameNode, kind = Enum, nfile = filePath, line = int (startRow node) + 1 \<rparr>], []))"

definition extension_fragment :: "SyntaxNode \<Rightarrow> Fragment" where
  "extension_fragment node =
     (case childForFieldName node ''name'' of
        None \<Rightarrow> ([], [])
      | Some nameNode \<Rightarrow>
          ([], concat (map (\<lambda>child.
                 if is_inheritance child
                 then map (\<lambda>typeId. \<lparr> efrom = ntext nameNode, eto = typeId, ekind = Implements \<rparr>)
                        (swift_extractTypeIdentifiers child)
                 else [])
               (children node))))"

text \<open>The \<^verbatim>\<open>walk\<close> of the Swift \<^verbatim>\<open>parseSource\<close>, a switch on the tag with descent as default.\<close>

fun swift_walk :: "string \<Rightarrow> SyntaxNode \<Rightarrow> Fragment" where
  "swift_walk filePath (SyntaxNode ty tx nm row fld cs) =
     (if ty = ''class_declaration''
      then (if list_ex (\<lambda>child. \<not> isNamed child \<and> ntext child = ''enum'') cs
            then enum_fragment (SyntaxNode ty tx nm row fld cs) filePath
            else swift_extractDeclaration (SyntaxNode ty tx nm row fld cs) filePath Class)
      else if ty = ''protocol_declaration''
      then swift_extractDeclaration (SyntaxNode ty tx nm row fld cs) filePath Protocol
      else if ty = ''enum_declaration''
      then enum_fragment (SyntaxNode ty tx nm row fld cs) filePath
      else if ty = ''extension_declaration''
      then extension_fragment (SyntaxNode ty tx nm row fld cs)
      else (let frags = map (swift_walk filePath) cs
            in (concat (map fst frags), concat (map snd frags))))"

definition swift_parseSource :: "SyntaxNode \<Rightarrow> string \<Rightarrow> Fragment" where
  "swift_parseSource root filePath = swift_walk filePath root"

section \<open>The Java extractor (languages/java.ts)\<close>

text \<open>
  The inner \<^verbatim>\<open>walk\<close> of \<^verbatim>\<open>extractTypeIdentifiers\<close>. The branch for \<^verbatim>\<open>generic_type\<close>
  does what the default does: it walks the children.
\<close>

fun java_type_walk :: "SyntaxNode \<Rightarrow> string list" where
  "java_type_walk (SyntaxNode ty tx nm row fld cs) =
     (if ty = ''type_identifier'' then [tx]
      else if ty = ''scoped_type_identifier''
      then (case find (\<lambda>c. fieldName c = Some ''name'') cs of
              Some nameNode \<Rightarrow> [ntext nameNode]
            | None \<Rightarrow> [])
      else if ty = ''generic_type'' then concat (map java_type_walk cs)
      else concat (map java_type_walk cs))"

definition java_extractTypeIdentifiers :: "SyntaxNode \<Rightarrow> string list" where
  "java_extractTypeIdentifiers node = java_type_walk node"

text \<open>The edges of one kind from the subtree held under a field, if there is one.\<close>

definition java_field_edges :: "SyntaxNode \<Rightarrow> string \<Rightarrow> string \<Rightarrow> EdgeKind \<Rightarrow> GraphEdge list" where
  "java_field_edges node f owner k =
     (case childForFieldName node f of
        None \<Rightarrow> []
      | Some sub \<Rightarrow>
          map (\<lambda>typeId. \<lparr> efrom = owner, eto = typeId, ekind = k \<rparr>) (java_extractTypeIdentifiers sub))"

text \<open>The edges that one member of a class body adds in \<^verbatim>\<open>extractClass\<close>.\<close>

definition java_member_edges :: "string \<Rightarrow> SyntaxNode \<Rightarrow> GraphEdge list" where
  "java_member_edges owner member =
     (if ntype member = ''field_declaration''
      then java_field_edges member ''type'' owner Field_type else [])
     @ (if ntype member = ''method_declaration'' \<or> ntype member = ''constructor_declaration''
        then java_field_edges member ''type'' owner Method_return
             @ (case childForFieldName member ''parameters'' of
                  None \<Rightarrow> []
                | Some params \<Rightarrow>
                    concat (map (\<lambda>param.
                        if ntype param \<noteq> ''formal_parameter'' then []
                        else java_field_edges param ''type'' owner Method_param)
                      (children params)))
        else [])"

definition extractClass :: "SyntaxNode \<Rightarrow> string \<Rightarrow> NodeKind \<Rightarrow> Fragment" where
  "extractClass node filePath k =
     (case childForFieldName node ''name'' of
        None \<Rightarrow> ([], [])
      | Some nameNode \<Rightarrow>
          ([\<lparr> name = ntext nameNode, kind = k, nfile = filePath, line = int (startRow node) + 1 \<rparr>],
           java_field_edges node ''superclass'' (ntext nameNode) Extends
           @ java_field_edges node ''interfaces'' (ntext nameNode) Implements
           @ java_field_edges node ''extends_interfaces'' (ntext nameNode) Extends
           @ (case childForFieldName node ''body'' of
                None \<Rightarrow> []
              | Some body \<Rightarrow> concat (map (java_member_edges (ntext nameNode)) (children body)))))"

fun java_walk :: "string \<Rightarrow> SyntaxNode \<Rightarrow> Fragment" where
  "java_walk filePath (SyntaxNode ty tx nm row fld cs) =
     (if ty = ''class_declaration''
      then extractClass (SyntaxNode ty tx nm row fld cs) filePath Class
      else if ty = ''interface_declaration''
      then extractClass (SyntaxNode ty tx nm row fld cs) filePath Interface
      else if ty = ''enum_declaration''
      then enum_fragment (SyntaxNode ty tx nm row fld cs) filePath
      else (let frags = map (java_walk filePath) cs
            in (concat (map fst frags), concat (map snd frags))))"

definition java_parseSource :: "SyntaxNode \<Rightarrow> string \<Rightarrow> Fragment" where
  "java_parseSource root filePath = java_walk filePath root"

section \<open>The TypeScript extractor (languages/typescript.ts)\<close>

text \<open>
  The inner \<^verbatim>\<open>walk\<close> of \<^verbatim>\<open>extractTypeIdentifiers\<close>: it pushes the text of an
  identifier, of a type identifier and of a qualified name, and descends elsewhere.
\<close>

fun ts_type_walk :: "SyntaxNode \<Rightarrow> string list" where
  "ts_type_walk (SyntaxNode ty tx nm row fld cs) =
     (if ty = ''type_identifier'' \<or> ty = ''identifier'' then [tx]
      else if ty = ''nested_type_identifier'' \<or> ty = ''member_expression'' then [tx]
      else concat (map ts_type_walk cs))"

definition ts_extractTypeIdentifiers :: "SyntaxNode \<Rightarrow> string list" where
  "ts_extractTypeIdentifiers node = ts_type_walk node"

definition ts_edges_of :: "SyntaxNode \<Rightarrow> string \<Rightarrow> EdgeKind \<Rightarrow> GraphEdge list" where
  "ts_edges_of sub owner k =
     map (\<lambda>typeId. \<lparr> efrom = owner, eto = typeId, ekind = k \<rparr>) (ts_extractTypeIdentifiers sub)"

definition ts_field_edges :: "SyntaxNode \<Rightarrow> string \<Rightarrow> string \<Rightarrow> EdgeKind \<Rightarrow> GraphEdge list" where
  "ts_field_edges node f owner k =
     (case childForFieldName node f of
        None \<Rightarrow> []
      | Some sub \<Rightarrow> ts_edges_of sub owner k)"

text \<open>The edges that one member of a body adds in the TypeScript \<^verbatim>\<open>extractBodyMembers\<close>.\<close>

definition ts_member_edges :: "string \<Rightarrow> SyntaxNode \<Rightarrow> GraphEdge list" where
  "ts_member_edges ownerName member =
     (if ntype member = ''public_field_definition'' \<or> ntype member = ''property_definition''
         \<or> ntype member = ''field_definition''
      then ts_field_edges member ''type'' ownerName Field_type else [])
     @ (if ntype member = ''method_definition'' \<or> ntype member = ''method_signature''
        then (case childForFieldName member ''parameters'' of
                None \<Rightarrow> []
              | Some params \<Rightarrow>
                  concat (map (\<lambda>param. ts_field_edges param ''type'' ownerName Method_param)
                    (children params)))
             @ ts_field_edges member ''return_type'' ownerName Method_return
        else [])
     @ (if ntype member = ''property_signature''
        then ts_field_edges member ''type'' ownerName Field_type else [])"

definition ts_extractBodyMembers :: "SyntaxNode \<Rightarrow> string \<Rightarrow> GraphEdge list" where
  "ts_extractBodyMembers body ownerName =
     concat (map (ts_member_edges ownerName) (children body))"

text \<open>
  The edges that one child of a declaration adds in the heritage loop of
  \<^verbatim>\<open>extractFromClassOrInterface\<close>.
\<close>

definition ts_heritage_edges :: "string \<Rightarrow> SyntaxNode \<Rightarrow> GraphEdge list" where
  "ts_heritage_edges owner child =
     (if ntype child = ''class_heritage''
      then concat (map (\<lambda>clause.
               (if ntype clause = ''extends_clause'' then ts_edges_of clause owner Extends else [])
               @ (if ntype clause = ''implements_clause''
                  then ts_edges_of clause owner Implements else []))
             (children child))
      else [])
     @ (if ntype child = ''extends_clause'' \<or> ntype child = ''extends_type_clause''
        then ts_edges_of child owner Extends else [])
     @ (if ntype child = ''implements_clause'' then ts_edges_of child owner Implements else [])"

definition extractFromClassOrInterface :: "SyntaxNode \<Rightarrow> string \<Rightarrow> NodeKind \<Rightarrow> Fragment" where
  "extractFromClassOrInterface node filePath k =
     (case childForFieldName node ''name'' of
        None \<Rightarrow> ([], [])
      | Some nameNode \<Rightarrow>
          ([\<lparr> name = ntext nameNode, kind = k, nfile = filePath, line = int (startRow node) + 1 \<rparr>],
           concat (map (ts_heritage_edges (ntext nameNode)) (children node))
           @ (case childForFieldName node ''body'' of
                None \<Rightarrow> []
              | Some body \<Rightarrow> ts_extractBodyMembers body (ntext nameNode))))"

definition type_alias_fragment :: "SyntaxNode \<Rightarrow> string \<Rightarrow> Fragment" where
  "type_alias_fragment node filePath =
     (case childForFieldName node ''name'' of
        None \<Rightarrow> ([], [])
      | Some nameNode \<Rightarrow>
          ([\<lparr> name = ntext nameNode, kind = Type_alias, nfile = filePath,
              line = int (startRow node) + 1 \<rparr>],
           ts_field_edges node ''value'' (ntext nameNode) Extends))"

fun ts_walk :: "string \<Rightarrow> SyntaxNode \<Rightarrow> Fragment" where
  "ts_walk filePath (SyntaxNode ty tx nm row fld cs) =
     (if ty = ''class_declaration'' \<or> ty = ''abstract_class_declaration''
      then extractFromClassOrInterface (SyntaxNode ty tx nm row fld cs) filePath Class
      else if ty = ''interface_declaration''
      then extractFromClassOrInterface (SyntaxNode ty tx nm row fld cs) filePath Interface
      else if ty = ''type_alias_declaration''
      then type_alias_fragment (SyntaxNode ty tx nm row fld cs) filePath
      else if ty = ''enum_declaration''
      then enum_fragment (SyntaxNode ty tx nm row fld cs) filePath
      else (let frags = map (ts_walk filePath) cs
            in (concat (map fst frags), concat (map snd frags))))"

definition ts_parseSource :: "SyntaxNode \<Rightarrow> string \<Rightarrow> Fragment" where
  "ts_parseSource root filePath = ts_walk filePath root"

section \<open>The nodes of a tree\<close>

text \<open>
  A node and all nodes below it, and the names that the type walks of the Java and the
  TypeScript extractor would push if they reached every node of a tree.
\<close>

fun subnodes :: "SyntaxNode \<Rightarrow> SyntaxNode list" where
  "subnodes (SyntaxNode ty tx nm row fld cs) =
     SyntaxNode ty tx nm row fld cs # concat (map subnodes cs)"

definition java_type_names :: "SyntaxNode \<Rightarrow> string list" where
  "java_type_names root =
     concat (map (\<lambda>n.
         if ntype n = ''type_identifier'' then [ntext n]
         else if ntype n = ''scoped_type_identifier''
         then (case childForFieldName n ''name'' of Some nameNode \<Rightarrow> [ntext nameNode] | None \<Rightarrow> [])
         else [])
       (subnodes root))"

definition ts_type_names :: "SyntaxNode \<Rightarrow> string list" where
  "ts_type_names root =
     map ntext (filter (\<lambda>n. ntype n = ''type_identifier'' \<or> ntype n = ''identifier''
                           \<or> ntype n = ''nested_type_identifier'' \<or> ntype n = ''member_expression'')
       (subnodes root))"

section \<open>Serialization (graph.ts)\<close>

text \<open>
  \<^verbatim>\<open>serializeGraph\<close> and \<^verbatim>\<open>deserializeGraph\<close> call \<^verbatim>\<open>JSON.stringify\<close> and
  \<^verbatim>\<open>JSON.parse\<close> of the runtime library. The two library functions are modelled from
  their definition in the ECMAScript language specification (JSON.stringify with
  SerializeJSONProperty, SerializeJSONObject and SerializeJSONArray; JSON.parse), for the
  values a graph object is made of: \<^verbatim>\<open>undefined\<close>, \<^verbatim>\<open>null\<close>, booleans, numbers,
  strings, arrays and plain objects with their properties in insertion order. A number is
  an integer, \<^verbatim>\<open>NaN\<close> or an infinity; fractions and negative zero, which no line number
  is, are left out.
\<close>

datatype jsnum = Finite int | NaN | PosInfinity | NegInfinity

datatype jsval =
  JUndefined | JNull | JBool bool | JNumber jsnum | JString string
  | JArray "jsval list" | JObject "(string \<times> jsval) list"

text \<open>
  The text that \<^verbatim>\<open>JSON.stringify\<close> returns is represented by the JSON document it
  spells: the indentation argument changes the white space only, and \<^verbatim>\<open>JSON.parse\<close>
  reads the text of a document back as that document.
\<close>

datatype json =
  Jnull | Jbool bool | Jnumber int | Jstring string
  | Jarray "json list" | Jobject "(string \<times> json) list"

text \<open>
  SerializeJSONProperty gives no result for \<^verbatim>\<open>undefined\<close>, and \<^verbatim>\<open>null\<close> for a number
  that is not finite. SerializeJSONObject leaves out every property whose value has no
  result; SerializeJSONArray writes \<^verbatim>\<open>null\<close> for such an element.
\<close>

fun SerializeJSONProperty :: "jsval \<Rightarrow> json option"
  and SerializeJSONObject :: "(string \<times> jsval) list \<Rightarrow> (string \<times> json) list"
  and SerializeJSONArray :: "jsval list \<Rightarrow> json list" where
  "SerializeJSONProperty JUndefined = None"
| "SerializeJSONProperty JNull = Some Jnull"
| "SerializeJSONProperty (JBool b) = Some (Jbool b)"
| "SerializeJSONProperty (JNumber (Finite i)) = Some (Jnumber i)"
| "SerializeJSONProperty (JNumber NaN) = Some Jnull"
| "SerializeJSONProperty (JNumber PosInfinity) = Some Jnull"
| "SerializeJSONProperty (JNumber NegInfinity) = Some Jnull"
| "SerializeJSONProperty (JString s) = Some (Jstring s)"
| "SerializeJSONProperty (JArray vs) = Some (Jarray (SerializeJSONArray vs))"
| "SerializeJSONProperty (JObject ps) = Some (Jobject (SerializeJSONObject ps))"
| "SerializeJSONObject [] = []"
| "SerializeJSONObject ((k, v) # ps) =
     (case SerializeJSONProperty v of
        None \<Rightarrow> SerializeJSONObject ps
      | Some d \<Rightarrow> (k, d) # SerializeJSONObject ps)"
| "SerializeJSONArray [] = []"
| "SerializeJSONArray (v # vs) =
     (case SerializeJSONProperty v of
        None \<Rightarrow> Jnull # SerializeJSONArray vs
      | Some d \<Rightarrow> d # SerializeJSONArray vs)"

definition JSON_stringify :: "jsval \<Rightarrow> json option" where
  "JSON_stringify v = SerializeJSONProperty v"

fun JSON_parse :: "json \<Rightarrow> jsval"
  and parse_members :: "(string \<times> json) list \<Rightarrow> (string \<times> jsval) list"
  and parse_elements :: "json list \<Rightarrow> jsval list" where
  "JSON_parse Jnull = JNull"
| "JSON_parse (Jbool b) = JBool b"
| "JSON_parse (Jnumber i) = JNumber (Finite i)"
| "JSON_parse (Jstring s) = JString s"
| "JSON_parse (Jarray ds) = JArray (parse_elements ds)"
| "JSON_parse (Jobject ms) = JObject (parse_members ms)"
| "parse_members [] = []"
| "parse_members ((k, d) # ms) = (k, JSON_parse d) # parse_members ms"
| "parse_elements [] = []"
| "parse_elements (d # ds) = JSON_parse d # parse_elements ds"

text \<open>
  \<^verbatim>\<open>serializeGraph\<close> returns what \<^verbatim>\<open>JSON.stringify\<close> returns, which is a text for every
  object and \<^verbatim>\<open>undefined\<close> (here \<open>None\<close>) for \<^verbatim>\<open>undefined\<close>.
\<close>

definition serializeGraph :: "jsval \<Rightarrow> json option" where
  "serializeGraph graph = JSON_stringify graph"

definition deserializeGraph :: "json \<Rightarrow> jsval" where
  "deserializeGraph j = JSON_parse j"

text \<open>
  The objects of the runtime that the records stand for. A graph object has the property
  \<^verbatim>\<open>commitSha\<close> when it has a commit id and lacks it otherwise, as the snapshots of the
  tests and the empty graphs of \<^verbatim>\<open>scanFromGit\<close> do. The object literal that
  \<^verbatim>\<open>filterAndDedupe\<close> returns always has the property, with the value \<^verbatim>\<open>undefined\<close>
  when no commit id was found.
\<close>

definition node_object :: "GraphNode \<Rightarrow> jsval" where
  "node_object n =
     JObject [(''name'', JString (name n)), (''kind'', JString (node_kind_str (kind n))),
              (''file'', JString (nfile n)), (''line'', JNumber (Finite (line n)))]"

definition edge_object :: "GraphEdge \<Rightarrow> jsval" where
  "edge_object e =
     JObject [(''from'', JString (efrom e)), (''to'', JString (eto e)),
              (''kind'', JString (edge_kind_str (ekind e)))]"

definition graph_object :: "DependencyGraph \<Rightarrow> jsval" where
  "graph_object g =
     JObject ([(''nodes'', JArray (map node_object (nodes g))),
               (''edges'', JArray (map edge_object (edges g))),
               (''scannedAt'', JString (scannedAt g))]
              @ (case commitSha g of
                   Some s \<Rightarrow> [(''commitSha'', JString s)]
                 | None \<Rightarrow> []))"

definition assembled_object :: "DependencyGraph \<Rightarrow> jsval" where
  "assembled_object g =
     JObject [(''nodes'', JArray (map node_object (nodes g))),
              (''edges'', JArray (map edge_object (edges g))),
              (''scannedAt'', JString (scannedAt g)),
              (''commitSha'', (case commitSha g of Some s \<Rightarrow> JString s | None \<Rightarrow> JUndefined))]"

text \<open>The documents that the node and edge objects are written as.\<close>

definition node_json :: "GraphNode \<Rightarrow> json" where
  "node_json n =
     Jobject [(''name'', Jstring (name n)), (''kind'', Jstring (node_kind_str (kind n))),
              (''file'', Jstring (nfile n)), (''line'', Jnumber (line n))]"

definition edge_json :: "GraphEdge \<Rightarrow> json" where
  "edge_json e =
     Jobject [(''from'', Jstring (efrom e)), (''to'', Jstring (eto e)),
              (''kind'', Jstring (edge_kind_str (ekind e)))]"

section \<open>Concrete inputs\<close>

text \<open>\<^verbatim>\<open>makeGraph\<close> is the helper of the diff tests (tests/diff.test.ts).\<close>

definition makeGraph :: "(string \<times> NodeKind) list \<Rightarrow> GraphEdge list \<Rightarrow> DependencyGraph" where
  "makeGraph ns es =
     \<lparr> nodes = map (\<lambda>(n, k). \<lparr> name = n, kind = k, nfile = ''test.ts'', line = 1 \<rparr>) ns,
       edges = es, scannedAt = ''2026-01-01T00:00:00.000Z'', commitSha = None \<rparr>"

text \<open>An environment whose clock reads the given instant and where git is not available.\<close>

definition env_at :: "string \<Rightarrow> Env" where
  "env_at t = \<lparr> now_iso = t, git_head = (\<lambda>dir. None) \<rparr>"

text \<open>
  Four declared types, two of them with \<^verbatim>\<open>->\<close> in their names, and two edges between
  them whose key strings coincide: both are \<^verbatim>\<open>a->b->c:extends\<close>.
\<close>

definition collision_nodes :: "GraphNode list" where
  "collision_nodes =
     [\<lparr> name = ''a'', kind = Class, nfile = ''x.ts'', line = 1 \<rparr>,
      \<lparr> name = ''b->c'', kind = Class, nfile = ''x.ts'', line = 2 \<rparr>,
      \<lparr> name = ''a->b'', kind = Class, nfile = ''x.ts'', line = 3 \<rparr>,
      \<lparr> name = ''c'', kind = Class, nfile = ''x.ts'', line = 4 \<rparr>]"

definition collision_edges :: "GraphEdge list" where
  "collision_edges =
     [\<lparr> efrom = ''a'', eto = ''b->c'', ekind = Extends \<rparr>,
      \<lparr> efrom = ''a->b'', eto = ''c'', ekind = Extends \<rparr>]"



text \<open>
  A project of two files, after the test "skips files that fail to parse without
  crashing" of tests/parse.test.ts: \<^verbatim>\<open>good.ts\<close> declares a class, and the parser throws
  on the content of \<^verbatim>\<open>bad.ts\<close>.
\<close>

definition toy_parse :: ParseFn where
  "toy_parse source filePath =
     (if source = ''class Valid {}''
      then Inr ([\<lparr> name = ''Valid'', kind = Class, nfile = filePath, line = 1 \<rparr>], [])
      else Inl ''Error: Invalid argument'')"

definition toy_fs :: FileSystem where
  "toy_fs =
     \<lparr> readFileSync = (\<lambda>p. if p = ''/p/good.ts'' then Inr ''class Valid {}''
                           else if p = ''/p/bad.ts'' then Inr ''garbage''
                           else Inl ''Error: ENOENT''),
       resolve = (\<lambda>dir f. dir @ ''/'' @ f),
       relative = (\<lambda>dir p. drop (length dir + 1) p) \<rparr>"

text \<open>Builders for example trees: an anonymous token, a named leaf, an inner node.\<close>

definition tok :: "string \<Rightarrow> SyntaxNode" where
  "tok s = SyntaxNode s s False 0 None []"

definition leaf :: "string \<Rightarrow> string \<Rightarrow> string option \<Rightarrow> SyntaxNode" where
  "leaf ty tx fld = SyntaxNode ty tx True 0 fld []"

definition inner :: "string \<Rightarrow> nat \<Rightarrow> string option \<Rightarrow> SyntaxNode list \<Rightarrow> SyntaxNode" where
  "inner ty row fld cs = SyntaxNode ty [] True row fld cs"

text \<open>
  The tree of this Swift file:
  \<^verbatim>\<open>class IntStack: Stack<Int> { func count() -> Int { return 0 } }\<close>
\<close>

definition swift_example :: SyntaxNode where
  "swift_example =
     inner ''source_file'' 0 None
       [inner ''class_declaration'' 0 None
          [tok ''class'',
           leaf ''type_identifier'' ''IntStack'' (Some ''name''),
           tok '':'',
           inner ''inheritance_specifier'' 0 None
             [inner ''user_type'' 0 (Some ''inherits_from'')
                [leaf ''type_identifier'' ''Stack'' None,
                 inner ''type_arguments'' 0 None
                   [tok ''<'',
                    inner ''user_type'' 0 None [leaf ''type_identifier'' ''Int'' None],
                    tok ''>'']]],
           inner ''class_body'' 0 (Some ''body'')
             [tok ''{'',
              inner ''function_declaration'' 0 None
                [tok ''func'',
                 leaf ''simple_identifier'' ''count'' (Some ''name''),
                 tok ''('', tok '')'', tok ''->'',
                 inner ''user_type'' 0 (Some ''return_type'')
                   [leaf ''type_identifier'' ''Int'' None],
                 inner ''function_body'' 0 (Some ''body'') [tok ''{'', tok ''}'']],
              tok ''}'']]]"

text \<open>
  The tree of this Go file, after the test "ignores builtin types" with one field of a
  declared type added:
  \<^verbatim>\<open>type User struct { Name string; Addr Address }\<close>
\<close>

definition go_example :: SyntaxNode where
  "go_example =
     inner ''source_file'' 0 None
       [inner ''type_declaration'' 2 None
          [tok ''type'',
           inner ''type_spec'' 2 None
             [leaf ''type_identifier'' ''User'' (Some ''name''),
              inner ''struct_type'' 2 (Some ''type'')
                [tok ''struct'',
                 inner ''field_declaration_list'' 2 None
                   [tok ''{'',
                    inner ''field_declaration'' 3 None
                      [leaf ''field_identifier'' ''Name'' (Some ''name''),
                       leaf ''type_identifier'' ''string'' (Some ''type'')],
                    inner ''field_declaration'' 4 None
                      [leaf ''field_identifier'' ''Addr'' (Some ''name''),
                       leaf ''type_identifier'' ''Address'' (Some ''type'')],
                    tok ''}'']]]]]"

text \<open>
  The tree of this Java file:
  \<^verbatim>\<open>class UserService { private int count; private Repo repo; }\<close>
\<close>

definition java_example :: SyntaxNode where
  "java_example =
     inner ''program'' 0 None
       [inner ''class_declaration'' 0 None
          [tok ''class'',
           leaf ''identifier'' ''UserService'' (Some ''name''),
           inner ''class_body'' 0 (Some ''body'')
             [tok ''{'',
              inner ''field_declaration'' 0 None
                [inner ''modifiers'' 0 None [tok ''private''],
                 SyntaxNode ''integral_type'' ''int'' True 0 (Some ''type'') [tok ''int''],
                 inner ''variable_declarator'' 0 (Some ''declarator'')
                   [leaf ''identifier'' ''count'' (Some ''name'')],
                 tok '';''],
              inner ''field_declaration'' 0 None
                [inner ''modifiers'' 0 None [tok ''private''],
                 leaf ''type_identifier'' ''Repo'' (Some ''type''),
                 inner ''variable_declarator'' 0 (Some ''declarator'')
                   [leaf ''identifier'' ''repo'' (Some ''name'')],
                 tok '';''],
              tok ''}'']]]"

text \<open>
  The tree of this TypeScript file:
  \<^verbatim>\<open>class Account { id: number; owner: User }\<close>
\<close>

definition ts_example :: SyntaxNode where
  "ts_example =
     inner ''program'' 0 None
       [inner ''class_declaration'' 0 None
          [tok ''class'',
           leaf ''type_identifier'' ''Account'' (Some ''name''),
           inner ''class_body'' 0 (Some ''body'')
             [tok ''{'',
              inner ''public_field_definition'' 0 None
                [leaf ''property_identifier'' ''id'' (Some ''name''),
                 inner ''type_annotation'' 0 (Some ''type'')
                   [tok '':'',
                    SyntaxNode ''predefined_type'' ''number'' True 0 None [tok ''number'']]],
              tok '';'',
              inner ''public_field_definition'' 0 None
                [leaf ''property_identifier'' ''owner'' (Some ''name''),
                 inner ''type_annotation'' 0 (Some ''type'')
                   [tok '':'', leaf ''type_identifier'' ''User'' None]],
              tok ''}'']]]"

text \<open>The names of the primitive types of Java and of TypeScript.\<close>

definition java_primitives :: "string set" where
  "java_primitives =
     {''boolean'', ''byte'', ''short'', ''int'', ''long'', ''char'', ''float'', ''double'', ''void''}"

definition ts_primitives :: "string set" where
  "ts_primitives =
     {''string'', ''number'', ''boolean'', ''bigint'', ''symbol'', ''null'', ''undefined'',
      ''void'', ''any'', ''unknown'', ''never'', ''object''}"

section \<open>Facts about the identity keys\<close>

lemma nodeKey_eq_iff: "nodeKey a = nodeKey b \<longleftrightarrow> name a = name b \<and> kind a = kind b"
proof -
  have "nodeKey a = nodeKey b \<longleftrightarrow> rev (nodeKey a) = rev (nodeKey b)" by simp
  also have "\<dots> \<longleftrightarrow> name a = name b \<and> kind a = kind b"
    by (cases "kind a"; cases "kind b"; simp add: nodeKey_def)
  finally show ?thesis .
qed

lemma edgeKey_eq_iff:
  "edgeKey a = edgeKey b \<longleftrightarrow>
     efrom a @ ''->'' @ eto a = efrom b @ ''->'' @ eto b \<and> ekind a = ekind b"
proof -
  have "edgeKey a = edgeKey b \<longleftrightarrow> rev (edgeKey a) = rev (edgeKey b)" by simp
  also have "\<dots> \<longleftrightarrow> rev (efrom a @ ''->'' @ eto a) = rev (efrom b @ ''->'' @ eto b) \<and> ekind a = ekind b"
    by (cases "ekind a"; cases "ekind b"; simp add: edgeKey_def)
  also have "\<dots> \<longleftrightarrow> efrom a @ ''->'' @ eto a = efrom b @ ''->'' @ eto b \<and> ekind a = ekind b"
    by (simp only: rev_is_rev_conv)
  finally show ?thesis .
qed

lemma edgeKey_triple: "(efrom a, eto a, ekind a) = (efrom b, eto b, ekind b) \<Longrightarrow> edgeKey a = edgeKey b"
  by (simp add: edgeKey_def)

text \<open>
  The key string of an edge determines the edge when the \<^verbatim>\<open>from\<close> names do not
  contain the character \<^verbatim>\<open>>\<close>: the first \<^verbatim>\<open>>\<close> of the key is then the one of
  the separator.
\<close>

lemma arrow_split:
  assumes "CHR ''>'' \<notin> set f"
  shows "takeWhile (\<lambda>c. c \<noteq> CHR ''>'') (f @ ''->'' @ t) = f @ ''-''"
proof -
  have "takeWhile (\<lambda>c. c \<noteq> CHR ''>'') (f @ ''->'' @ t) =
        f @ takeWhile (\<lambda>c. c \<noteq> CHR ''>'') (''->'' @ t)"
    using assms by (intro takeWhile_append2) auto
  then show ?thesis by simp
qed

lemma edgeKey_inj_without_gt:
  assumes "CHR ''>'' \<notin> set (efrom a)" and "CHR ''>'' \<notin> set (efrom b)"
    and "edgeKey a = edgeKey b"
  shows "a = b"
proof -
  from assms(3) have s: "efrom a @ ''->'' @ eto a = efrom b @ ''->'' @ eto b"
    and k: "ekind a = ekind b"
    by (simp_all add: edgeKey_eq_iff)
  have "efrom a @ ''-'' = efrom b @ ''-''"
    using arrow_split [OF assms(1), of "eto a"] arrow_split [OF assms(2), of "eto b"] s by simp
  then have f: "efrom a = efrom b" by simp
  with s have t: "eto a = eto b" by simp
  from f t k show ?thesis by simp
qed

lemma edgeKey_inj_on_without_gt:
  "\<forall>e \<in> E. CHR ''>'' \<notin> set (efrom e) \<Longrightarrow> inj_on edgeKey E"
  by (rule inj_onI) (auto intro: edgeKey_inj_without_gt)

section \<open>Facts about the Map\<close>

lemma map_has_iff: "map_has m k \<longleftrightarrow> k \<in> fst ` set m"
  by (induction m) auto

lemma fst_in_keys: "(a, b) \<in> set m \<Longrightarrow> a \<in> fst ` set m"
  by force

lemma map_set_fst:
  "map fst (map_set m k v) = (if k \<in> fst ` set m then map fst m else map fst m @ [k])"
  by (induction m) (auto dest: fst_in_keys)

lemma map_set_keys: "fst ` set (map_set m k v) = insert k (fst ` set m)"
proof -
  have "set (map fst (map_set m k v)) = insert k (set (map fst m))"
    unfolding map_set_fst by auto
  then show ?thesis by simp
qed

lemma map_set_entries: "set (map_set m k v) \<subseteq> insert (k, v) (set m)"
  by (induction m) (auto split: if_splits)

lemma map_set_distinct: "distinct (map fst m) \<Longrightarrow> distinct (map fst (map_set m k v))"
proof (induction m)
  case Nil
  show ?case by simp
next
  case (Cons p m)
  obtain k' v' where p: "p = (k', v')" by (cases p)
  have "fst ` set (map_set m k v) = insert k (fst ` set m)" by (rule map_set_keys)
  with Cons p show ?case by auto
qed

lemma map_of_entries_keys: "fst ` set (map_of_entries m es) = fst ` set m \<union> fst ` set es"
proof (induction es arbitrary: m)
  case Nil
  show ?case by simp
next
  case (Cons e es)
  obtain k v where e: "e = (k, v)" by (cases e)
  show ?case using Cons [of "map_set m k v"] by (simp add: e map_set_keys)
qed

lemma map_of_entries_entries: "set (map_of_entries m es) \<subseteq> set m \<union> set es"
proof (induction es arbitrary: m)
  case Nil
  show ?case by simp
next
  case (Cons e es)
  obtain k v where e: "e = (k, v)" by (cases e)
  have "set (map_of_entries (map_set m k v) es) \<subseteq> set (map_set m k v) \<union> set es"
    by (rule Cons)
  also have "\<dots> \<subseteq> insert (k, v) (set m) \<union> set es"
    using map_set_entries [of m k v] by blast
  finally show ?case by (simp add: e)
qed

lemma map_of_entries_distinct:
  "distinct (map fst m) \<Longrightarrow> distinct (map fst (map_of_entries m es))"
proof (induction es arbitrary: m)
  case Nil
  then show ?case by simp
next
  case (Cons e es)
  obtain k v where e: "e = (k, v)" by (cases e)
  from Cons.prems have "distinct (map fst (map_set m k v))" by (rule map_set_distinct)
  then show ?case using Cons.IH by (simp add: e)
qed

lemma new_Map_keys: "fst ` set (new_Map es) = fst ` set es"
  by (simp add: new_Map_def map_of_entries_keys)

lemma new_Map_entries: "set (new_Map es) \<subseteq> set es"
  using map_of_entries_entries [of "[]" es] by (simp add: new_Map_def)

lemma new_Map_distinct: "distinct (map fst (new_Map es))"
  by (simp add: new_Map_def map_of_entries_distinct)

lemma absent_from_values: "set (absent_from other (new_Map (map (\<lambda>x. (f x, x)) xs))) \<subseteq> set xs"
proof
  fix v
  assume "v \<in> set (absent_from other (new_Map (map (\<lambda>x. (f x, x)) xs)))"
  then obtain k where "(k, v) \<in> set (new_Map (map (\<lambda>x. (f x, x)) xs))"
    by (auto simp: absent_from_def)
  then have "(k, v) \<in> set (map (\<lambda>x. (f x, x)) xs)"
    using new_Map_entries by blast
  then show "v \<in> set xs" by auto
qed

lemma new_Map_keyed_entries:
  "(k, v) \<in> set (new_Map (map (\<lambda>x. (f x, x)) xs)) \<Longrightarrow> v \<in> set xs \<and> k = f v"
  using new_Map_entries [of "map (\<lambda>x. (f x, x)) xs"] by auto

lemma keyed_map_values_distinct:
  assumes "distinct (map fst m)" and "\<And>k v. (k, v) \<in> set m \<Longrightarrow> k = f v"
  shows "distinct (map snd m)"
proof -
  have "map fst m = map f (map snd m)"
    using assms(2) by (induction m) auto
  with assms(1) have "distinct (map f (map snd m))" by simp
  then show ?thesis using distinct_map [of f "map snd m"] by blast
qed

lemma absent_from_distinct:
  "distinct (absent_from other (new_Map (map (\<lambda>x. (f x, x)) xs)))"
proof -
  let ?m = "new_Map (map (\<lambda>x. (f x, x)) xs)"
  let ?m' = "filter (\<lambda>(key, v). \<not> map_has other key) ?m"
  have "distinct (map fst ?m')"
    using new_Map_distinct [of "map (\<lambda>x. (f x, x)) xs"] by (rule distinct_map_filter)
  moreover have "\<And>k v. (k, v) \<in> set ?m' \<Longrightarrow> k = f v"
    using new_Map_keyed_entries [of _ _ f xs] by auto
  ultimately have "distinct (map snd ?m')" by (rule keyed_map_values_distinct)
  then show ?thesis by (simp add: absent_from_def)
qed

lemma count_list_distinct: "distinct xs \<Longrightarrow> x \<in> set xs \<Longrightarrow> count_list xs x = 1"
  by (induction xs) (auto simp: count_list_0_iff)

lemma absent_from_member:
  assumes "x \<in> set xs" and "inj_on f (set xs)" and "\<not> map_has other (f x)"
  shows "x \<in> set (absent_from other (new_Map (map (\<lambda>x. (f x, x)) xs)))"
proof -
  let ?m = "new_Map (map (\<lambda>x. (f x, x)) xs)"
  have "f x \<in> fst ` set ?m"
    using assms(1) by (simp add: new_Map_keys image_image)
  then obtain v where kv: "(f x, v) \<in> set ?m" by auto
  then have "v \<in> set xs" "f x = f v"
    using new_Map_keyed_entries [of "f x" v f xs] by simp_all
  with assms(1,2) have "v = x" by (auto dest: inj_onD)
  with kv have "(f x, x) \<in> set (filter (\<lambda>(key, v). \<not> map_has other key) ?m)"
    using assms(3) by simp
  then show ?thesis unfolding absent_from_def by force
qed

lemma distinct_map_finer:
  assumes "distinct (map f xs)" and "\<And>a b. g a = g b \<Longrightarrow> f a = f b"
  shows "distinct (map g xs)"
proof -
  from assms(1) have d: "distinct xs" and i: "inj_on f (set xs)"
    by (simp_all add: distinct_map)
  have "inj_on g (set xs)"
  proof (rule inj_onI)
    fix a b assume "a \<in> set xs" "b \<in> set xs" "g a = g b"
    with i assms(2) show "a = b" by (auto dest: inj_onD)
  qed
  with d show ?thesis by (simp add: distinct_map)
qed

lemma absent_from_keys:
  "f ` set (absent_from (new_Map (map (\<lambda>x. (f x, x)) ys)) (new_Map (map (\<lambda>x. (f x, x)) xs))) =
     f ` set xs - f ` set ys"
proof -
  let ?m = "new_Map (map (\<lambda>x. (f x, x)) xs)"
  let ?o = "new_Map (map (\<lambda>x. (f x, x)) ys)"
  have keyed: "k = f v" if "(k, v) \<in> set ?m" for k v
    using new_Map_keyed_entries [OF that] by simp
  have ko: "map_has ?o k \<longleftrightarrow> k \<in> f ` set ys" for k
    by (simp add: map_has_iff new_Map_keys image_image)
  have km: "fst ` set ?m = f ` set xs"
    by (simp add: new_Map_keys image_image)
  show ?thesis
  proof (intro set_eqI iffI)
    fix k assume "k \<in> f ` set (absent_from ?o ?m)"
    then obtain k' v where kv: "(k', v) \<in> set ?m" "\<not> map_has ?o k'" "k = f v"
      by (auto simp: absent_from_def)
    from keyed [OF kv(1)] kv(3) have "k' = k" by simp
    with kv have "k \<in> fst ` set ?m" "k \<notin> f ` set ys" by (auto simp: ko dest: fst_in_keys)
    then show "k \<in> f ` set xs - f ` set ys" by (simp add: km)
  next
    fix k assume "k \<in> f ` set xs - f ` set ys"
    then have "k \<in> fst ` set ?m" "\<not> map_has ?o k" by (simp_all add: km ko)
    then obtain v where kv: "(k, v) \<in> set ?m" by auto
    with \<open>\<not> map_has ?o k\<close> have "v \<in> set (absent_from ?o ?m)"
      by (force simp: absent_from_def)
    moreover from keyed [OF kv] have "f v = k" by simp
    ultimately show "k \<in> f ` set (absent_from ?o ?m)" by blast
  qed
qed

lemma keyed_map_fst:
  "(\<And>k v. (k, v) \<in> set m \<Longrightarrow> k = f v) \<Longrightarrow> map fst m = map f (map snd m)"
  by (induction m) auto

lemma absent_from_key_distinct:
  "distinct (map f (absent_from other (new_Map (map (\<lambda>x. (f x, x)) xs))))"
proof -
  let ?m = "new_Map (map (\<lambda>x. (f x, x)) xs)"
  let ?m' = "filter (\<lambda>(key, v). \<not> map_has other key) ?m"
  have d: "distinct (map fst ?m')"
    using new_Map_distinct [of "map (\<lambda>x. (f x, x)) xs"] by (rule distinct_map_filter)
  have "map fst ?m' = map f (map snd ?m')"
  proof (rule keyed_map_fst)
    fix k v assume "(k, v) \<in> set ?m'"
    then have "(k, v) \<in> set ?m" by simp
    then show "k = f v" using new_Map_keyed_entries [of k v f xs] by simp
  qed
  with d have "distinct (map f (map snd ?m'))" by simp
  then show ?thesis unfolding absent_from_def .
qed

lemma same_node_key_iff:
  "(\<exists>a \<in> X. name a = name n \<and> kind a = kind n) \<longleftrightarrow> nodeKey n \<in> nodeKey ` X"
proof
  assume "\<exists>a \<in> X. name a = name n \<and> kind a = kind n"
  then obtain a where "a \<in> X" "nodeKey a = nodeKey n" by (auto simp: nodeKey_eq_iff)
  then show "nodeKey n \<in> nodeKey ` X" by (metis imageI)
next
  assume "nodeKey n \<in> nodeKey ` X"
  then obtain a where "a \<in> X" "nodeKey n = nodeKey a" by (rule imageE)
  then have "a \<in> X" "name a = name n \<and> kind a = kind n" by (simp_all add: nodeKey_eq_iff)
  then show "\<exists>a \<in> X. name a = name n \<and> kind a = kind n" by (rule bexI [rotated])
qed

lemma diff_nodes_by_key:
  "((\<exists>a \<in> set (addedNodes (diffGraphs before after)). name a = name (n::GraphNode) \<and> kind a = kind n) \<longleftrightarrow>
      (\<exists>a \<in> set (nodes after). name a = name n \<and> kind a = kind n) \<and>
      \<not> (\<exists>b \<in> set (nodes before). name b = name n \<and> kind b = kind n)) \<and>
   ((\<exists>b \<in> set (removedNodes (diffGraphs before after)). name b = name n \<and> kind b = kind n) \<longleftrightarrow>
      (\<exists>b \<in> set (nodes before). name b = name n \<and> kind b = kind n) \<and>
      \<not> (\<exists>a \<in> set (nodes after). name a = name n \<and> kind a = kind n))"
proof -
  have a: "nodeKey ` set (addedNodes (diffGraphs before after)) =
        nodeKey ` set (nodes after) - nodeKey ` set (nodes before)"
    by (simp add: diffGraphs_def Let_def absent_from_keys)
  have r: "nodeKey ` set (removedNodes (diffGraphs before after)) =
        nodeKey ` set (nodes before) - nodeKey ` set (nodes after)"
    by (simp add: diffGraphs_def Let_def absent_from_keys)
  show ?thesis by (simp only: same_node_key_iff a r Diff_iff simp_thms)
qed

lemma diff_nodes_distinct:
  "distinct (map (\<lambda>n. (name n, kind n)) (addedNodes (diffGraphs before after))) \<and>
   distinct (map (\<lambda>n. (name n, kind n)) (removedNodes (diffGraphs before after)))"
proof -
  have fin: "nodeKey a = nodeKey b" if "(name a, kind a) = (name b, kind b)" for a b :: GraphNode
    using that by (simp add: nodeKey_eq_iff)
  have a: "distinct (map nodeKey (addedNodes (diffGraphs before after)))"
    by (simp add: diffGraphs_def Let_def absent_from_key_distinct)
  have r: "distinct (map nodeKey (removedNodes (diffGraphs before after)))"
    by (simp add: diffGraphs_def Let_def absent_from_key_distinct)
  have "distinct (map (\<lambda>n. (name n, kind n)) (addedNodes (diffGraphs before after)))"
    using a by (rule distinct_map_finer) (rule fin)
  moreover have "distinct (map (\<lambda>n. (name n, kind n)) (removedNodes (diffGraphs before after)))"
    using r by (rule distinct_map_finer) (rule fin)
  ultimately show ?thesis by (rule conjI)
qed

section \<open>Facts about graph assembly\<close>

lemma map_set_absent: "\<not> map_has m k \<Longrightarrow> map_set m k v = m @ [(k, v)]"
  by (induction m) (auto split: if_splits)


lemma firsts_keys: "key ` set (firsts key seen xs) = key ` set xs - seen"
  by (induction xs arbitrary: seen) auto

lemma firsts_distinct: "distinct (map key (firsts key seen xs))"
proof (induction xs arbitrary: seen)
  case Nil
  show ?case by simp
next
  case (Cons x xs)
  have "key x \<notin> key ` set (firsts key (insert (key x) seen) xs)"
    by (simp add: firsts_keys)
  with Cons show ?case by simp
qed

lemma firsts_find:
  "find (\<lambda>x. key x = k) (firsts key seen xs) =
     (if k \<in> seen then None else find (\<lambda>x. key x = k) xs)"
  by (induction xs arbitrary: seen) auto

lemma dedupe_nodes_firsts:
  "dedupe_nodes m ns = m @ map (\<lambda>n. (name n, n)) (firsts name (fst ` set m) ns)"
proof (induction ns arbitrary: m)
  case Nil
  show ?case by simp
next
  case (Cons n ns)
  show ?case
  proof (cases "map_has m (name n)")
    case True
    then show ?thesis using Cons [of m] by (simp add: map_has_iff)
  next
    case False
    then have "map_set m (name n) n = m @ [(name n, n)]" by (rule map_set_absent)
    then show ?thesis using False Cons [of "m @ [(name n, n)]"] by (simp add: map_has_iff)
  qed
qed

lemma filter_edges_firsts:
  "filter_edges N (seen, out) es =
     (seen \<union> edgeKey ` set (firsts edgeKey seen (filter (edge_valid N) es)),
      out @ firsts edgeKey seen (filter (edge_valid N) es))"
proof (induction es arbitrary: seen out)
  case Nil
  show ?case by simp
next
  case (Cons e es)
  show ?case
    using Cons [of seen out] Cons [of "insert (edgeKey e) seen" "out @ [e]"]
    by (auto simp: edge_valid_def Let_def)
qed

lemma dedupe_nodes_values: "map snd (dedupe_nodes [] ns) = firsts name {} ns"
  by (simp add: dedupe_nodes_firsts comp_def)

lemma filterAndDedupe_nodes: "nodes (filterAndDedupe env ns es dir sha) = firsts name {} ns"
  by (simp add: filterAndDedupe_def Let_def dedupe_nodes_values)

lemma filterAndDedupe_edges:
  "edges (filterAndDedupe env ns es dir sha) =
     firsts edgeKey {} (filter (edge_valid (name ` set ns)) es)"
proof -
  have names: "set (map name (map snd (dedupe_nodes [] ns))) = name ` set ns"
    unfolding dedupe_nodes_values using firsts_keys [of name "{}" ns] by simp
  show ?thesis
    unfolding filterAndDedupe_def Let_def names filter_edges_firsts by simp
qed







lemma firsts_set: "set (firsts key seen xs) \<subseteq> set xs"
  by (induction xs arbitrary: seen) auto

lemma assembled_names:
  "name ` set (nodes (filterAndDedupe env allNodes allEdges dir sha)) = name ` set allNodes"
  unfolding filterAndDedupe_nodes using firsts_keys [of name "{}" allNodes] by simp

text \<open>
  Every edge of an assembled graph is one of the input edges, both of its ends are names
  of nodes of that graph, and its ends differ.
\<close>

lemma assembled_edges_valid:
  assumes "e \<in> set (edges (filterAndDedupe env allNodes allEdges dir sha))"
  shows "e \<in> set allEdges \<and>
         edge_valid (name ` set (nodes (filterAndDedupe env allNodes allEdges dir sha))) e"
proof -
  from assms have "e \<in> set (filter (edge_valid (name ` set allNodes)) allEdges)"
    unfolding filterAndDedupe_edges using firsts_set [of edgeKey "{}"] by blast
  then show ?thesis by (simp add: assembled_names)
qed

text \<open>
  When no input edge has the character \<^verbatim>\<open>>\<close> in its \<^verbatim>\<open>from\<close> name, the edges of
  the assembled graph are exactly the input edges with two known, different ends.
\<close>

lemma assembled_edges_iff_without_gt:
  assumes "\<forall>e \<in> set allEdges. CHR ''>'' \<notin> set (efrom e)"
  shows "e \<in> set (edges (filterAndDedupe env allNodes allEdges dir sha)) \<longleftrightarrow>
         e \<in> set allEdges \<and>
         edge_valid (name ` set (nodes (filterAndDedupe env allNodes allEdges dir sha))) e"
proof
  assume "e \<in> set (edges (filterAndDedupe env allNodes allEdges dir sha))"
  then show "e \<in> set allEdges \<and>
      edge_valid (name ` set (nodes (filterAndDedupe env allNodes allEdges dir sha))) e"
    by (rule assembled_edges_valid)
next
  let ?valid = "filter (edge_valid (name ` set allNodes)) allEdges"
  assume "e \<in> set allEdges \<and>
      edge_valid (name ` set (nodes (filterAndDedupe env allNodes allEdges dir sha))) e"
  then have e: "e \<in> set allEdges" "e \<in> set ?valid"
    by (simp_all add: assembled_names)
  then have "edgeKey e \<in> edgeKey ` set (firsts edgeKey {} ?valid)"
    by (simp add: firsts_keys)
  then obtain e' where e': "e' \<in> set (firsts edgeKey {} ?valid)" "edgeKey e' = edgeKey e"
    by auto
  from e'(1) have "e' \<in> set allEdges"
    using firsts_set [of edgeKey "{}" ?valid] by auto
  with assms e(1) e'(2) have "e' = e"
    by (auto intro: edgeKey_inj_without_gt)
  with e'(1) show "e \<in> set (edges (filterAndDedupe env allNodes allEdges dir sha))"
    by (simp add: filterAndDedupe_edges)
qed








section \<open>Facts about the directory scan\<close>

lemma scan_step_acc:
  "nodes_acc (scan_step fs langs absDir st file) = nodes_acc st @ fst (file_fragment fs langs absDir file) \<and>
   edges_acc (scan_step fs langs absDir st file) = edges_acc st @ snd (file_fragment fs langs absDir file)"
  by (simp add: scan_step_def file_fragment_def Let_def split: option.splits sum.splits prod.splits)

lemma scan_step_stderr:
  "set (stderr_out st) \<subseteq> set (stderr_out (scan_step fs langs absDir st file))"
  by (auto simp: scan_step_def Let_def split: option.splits sum.splits prod.splits)

lemma scan_files_acc:
  "nodes_acc (scan_files fs langs absDir st files) =
     nodes_acc st @ concat (map (\<lambda>f. fst (file_fragment fs langs absDir f)) files) \<and>
   edges_acc (scan_files fs langs absDir st files) =
     edges_acc st @ concat (map (\<lambda>f. snd (file_fragment fs langs absDir f)) files)"
  by (induction files arbitrary: st) (simp_all add: scan_step_acc)

lemma scan_files_stderr:
  "set (stderr_out st) \<subseteq> set (stderr_out (scan_files fs langs absDir st files))"
proof (induction files arbitrary: st)
  case Nil
  show ?case by simp
next
  case (Cons f files)
  have "set (stderr_out st) \<subseteq> set (stderr_out (scan_step fs langs absDir st f))"
    by (rule scan_step_stderr)
  also have "\<dots> \<subseteq> set (stderr_out (scan_files fs langs absDir (scan_step fs langs absDir st f) files))"
    by (rule Cons)
  finally show ?case by simp
qed

lemma scan_files_append:
  "scan_files fs langs absDir st (xs @ ys) =
     scan_files fs langs absDir (scan_files fs langs absDir st xs) ys"
  by (induction xs arbitrary: st) simp_all

section \<open>Facts about the Go extractor\<close>

lemma struct_field_edges_user:
  "e \<in> set (struct_field_edges nameText field) \<Longrightarrow> isUserType (eto e)"
  by (auto simp: struct_field_edges_def split: if_splits option.splits)

lemma extractMethodEdges_user:
  "e \<in> set (extractMethodEdges method ownerName) \<Longrightarrow> isUserType (eto e)"
  by (auto simp: extractMethodEdges_def split: if_splits option.splits)

lemma interface_child_edges_user:
  "e \<in> set (interface_child_edges nameText child) \<Longrightarrow> isUserType (eto e)"
  by (auto simp: interface_child_edges_def dest: extractMethodEdges_user split: if_splits)

lemma extractStruct_user:
  "e \<in> set (snd (extractStruct nameText typeNode filePath r)) \<Longrightarrow> isUserType (eto e)"
  by (auto simp: extractStruct_def Let_def dest: struct_field_edges_user split: option.splits)

lemma extractInterface_user:
  "e \<in> set (snd (extractInterface nameText typeNode filePath r)) \<Longrightarrow> isUserType (eto e)"
  by (auto simp: extractInterface_def dest: interface_child_edges_user)

lemma type_spec_fragment_user:
  "e \<in> set (snd (type_spec_fragment filePath spec)) \<Longrightarrow> isUserType (eto e)"
  by (auto simp: type_spec_fragment_def dest: extractStruct_user extractInterface_user
      split: if_splits option.splits)

lemma go_top_fragment_user:
  assumes "e \<in> set (snd (go_top_fragment filePath child))"
  shows "isUserType (eto e)"
proof -
  let ?decls = "if ntype child = ''type_declaration''
                then map (type_spec_fragment filePath) (children child) else []"
  let ?methods = "if ntype child = ''method_declaration''
                  then (case getReceiverType child of
                          Some receiverType \<Rightarrow>
                            if truthy receiverType then extractMethodEdges child receiverType else []
                        | None \<Rightarrow> [])
                  else []"
  from assms have "e \<in> set (concat (map snd ?decls)) \<or> e \<in> set ?methods"
    unfolding go_top_fragment_def Let_def by (simp only: snd_conv set_append Un_iff)
  then show ?thesis
  proof
    assume "e \<in> set (concat (map snd ?decls))"
    then obtain spec where "e \<in> set (snd (type_spec_fragment filePath spec))"
      by (auto split: if_splits)
    then show ?thesis by (rule type_spec_fragment_user)
  next
    assume m: "e \<in> set ?methods"
    show ?thesis
    proof (cases "getReceiverType child")
      case None
      with m show ?thesis by (cases "ntype child = ''method_declaration''") simp_all
    next
      case (Some r)
      with m have "e \<in> set (extractMethodEdges child r)"
        by (cases "ntype child = ''method_declaration''"; cases "truthy r") simp_all
      then show ?thesis by (rule extractMethodEdges_user)
    qed
  qed
qed

section \<open>Facts about the nodes of a tree\<close>

lemma subnodes_self: "n \<in> set (subnodes n)"
  by (cases n) simp

lemma subnodes_child: "c \<in> set (children n) \<Longrightarrow> set (subnodes c) \<subseteq> set (subnodes n)"
  by (cases n) auto

lemma child_in_subnodes: "c \<in> set (children n) \<Longrightarrow> c \<in> set (subnodes n)"
  using subnodes_child [of c n] subnodes_self [of c] by blast

lemma childForFieldName_child: "childForFieldName n f = Some c \<Longrightarrow> c \<in> set (children n)"
  by (auto simp: childForFieldName_def find_Some_iff)

section \<open>Facts about the Java extractor\<close>

lemma java_names_child:
  "c \<in> set (children n) \<Longrightarrow> set (java_type_names c) \<subseteq> set (java_type_names n)"
  using subnodes_child [of c n] by (auto simp: java_type_names_def)

lemma java_names_field:
  "childForFieldName n f = Some c \<Longrightarrow> set (java_type_names c) \<subseteq> set (java_type_names n)"
  by (rule java_names_child) (rule childForFieldName_child)

lemma java_type_walk_names: "set (java_type_walk n) \<subseteq> set (java_type_names n)"
proof (induction n rule: java_type_walk.induct)
  case (1 ty tx nm row fld cs)
  let ?n = "SyntaxNode ty tx nm row fld cs"
  have self: "?n \<in> set (subnodes ?n)" by (rule subnodes_self)
  show ?case
  proof (cases "ty = ''type_identifier''")
    case True
    with self show ?thesis by (force simp: java_type_names_def simp del: subnodes.simps)
  next
    case nt: False
    show ?thesis
    proof (cases "ty = ''scoped_type_identifier''")
      case True
      with nt self show ?thesis
        by (force simp: java_type_names_def childForFieldName_def simp del: subnodes.simps
            split: option.splits)
    next
      case False
      have "set (java_type_walk c) \<subseteq> set (java_type_names ?n)" if "c \<in> set cs" for c
      proof -
        have "set (java_type_walk c) \<subseteq> set (java_type_names c)"
          using nt False that "1.IH" by (cases "ty = ''generic_type''") auto
        moreover have "set (java_type_names c) \<subseteq> set (java_type_names ?n)"
          using that by (intro java_names_child) simp
        ultimately show ?thesis by blast
      qed
      with nt False show ?thesis by auto
    qed
  qed
qed

lemma java_field_edges_names:
  assumes "e \<in> set (java_field_edges node f owner k)"
  shows "eto e \<in> set (java_type_names node)"
proof (cases "childForFieldName node f")
  case None
  with assms show ?thesis by (simp add: java_field_edges_def)
next
  case (Some sub)
  with assms have "eto e \<in> set (java_type_walk sub)"
    by (auto simp: java_field_edges_def java_extractTypeIdentifiers_def)
  then show ?thesis
    using java_type_walk_names [of sub] java_names_field [OF Some] by blast
qed

lemma java_member_edges_names:
  assumes "e \<in> set (java_member_edges owner member)"
  shows "eto e \<in> set (java_type_names member)"
proof -
  let ?params = "case childForFieldName member ''parameters'' of
                  None \<Rightarrow> []
                | Some params \<Rightarrow>
                    concat (map (\<lambda>param.
                        if ntype param \<noteq> ''formal_parameter'' then []
                        else java_field_edges param ''type'' owner Method_param)
                      (children params))"
  from assms consider
      "e \<in> set (java_field_edges member ''type'' owner Field_type)"
    | "e \<in> set (java_field_edges member ''type'' owner Method_return)"
    | "e \<in> set ?params"
    unfolding java_member_edges_def
    by (cases "ntype member = ''field_declaration''";
        cases "ntype member = ''method_declaration'' \<or> ntype member = ''constructor_declaration''")
       auto
  then show ?thesis
  proof cases
    case 1 then show ?thesis by (rule java_field_edges_names)
  next
    case 2 then show ?thesis by (rule java_field_edges_names)
  next
    case 3
    then obtain params param where p: "childForFieldName member ''parameters'' = Some params"
      "param \<in> set (children params)" "e \<in> set (java_field_edges param ''type'' owner Method_param)"
      by (cases "childForFieldName member ''parameters''") (auto split: if_splits)
    from p(3) have "eto e \<in> set (java_type_names param)" by (rule java_field_edges_names)
    then show ?thesis
      using java_names_child [OF p(2)] java_names_field [OF p(1)] by blast
  qed
qed

lemma extractClass_names:
  assumes "e \<in> set (snd (extractClass node filePath k))"
  shows "eto e \<in> set (java_type_names node)"
proof (cases "childForFieldName node ''name''")
  case None
  with assms show ?thesis by (simp add: extractClass_def)
next
  case (Some nameNode)
  let ?o = "ntext nameNode"
  let ?body = "case childForFieldName node ''body'' of
                None \<Rightarrow> []
              | Some body \<Rightarrow> concat (map (java_member_edges ?o) (children body))"
  from assms Some consider
      "e \<in> set (java_field_edges node ''superclass'' ?o Extends)"
    | "e \<in> set (java_field_edges node ''interfaces'' ?o Implements)"
    | "e \<in> set (java_field_edges node ''extends_interfaces'' ?o Extends)"
    | "e \<in> set ?body"
    by (auto simp: extractClass_def)
  then show ?thesis
  proof cases
    case 1 then show ?thesis by (rule java_field_edges_names)
  next
    case 2 then show ?thesis by (rule java_field_edges_names)
  next
    case 3 then show ?thesis by (rule java_field_edges_names)
  next
    case 4
    then obtain body member where b: "childForFieldName node ''body'' = Some body"
      "member \<in> set (children body)" "e \<in> set (java_member_edges ?o member)"
      by (cases "childForFieldName node ''body''") auto
    from b(3) have "eto e \<in> set (java_type_names member)" by (rule java_member_edges_names)
    then show ?thesis
      using java_names_child [OF b(2)] java_names_field [OF b(1)] by blast
  qed
qed

lemma java_walk_names:
  "e \<in> set (snd (java_walk filePath n)) \<Longrightarrow> eto e \<in> set (java_type_names n)"
proof (induction filePath n rule: java_walk.induct)
  case (1 filePath ty tx nm row fld cs)
  let ?n = "SyntaxNode ty tx nm row fld cs"
  consider (cls) "ty = ''class_declaration''"
    | (ifc) "ty \<noteq> ''class_declaration''" "ty = ''interface_declaration''"
    | (enm) "ty \<noteq> ''class_declaration''" "ty \<noteq> ''interface_declaration''" "ty = ''enum_declaration''"
    | (dflt) "ty \<noteq> ''class_declaration''" "ty \<noteq> ''interface_declaration''" "ty \<noteq> ''enum_declaration''"
    by blast
  then show ?case
  proof cases
    case cls
    with "1.prems" have "e \<in> set (snd (extractClass ?n filePath Class))" by simp
    then show ?thesis by (rule extractClass_names)
  next
    case ifc
    with "1.prems" have "e \<in> set (snd (extractClass ?n filePath Interface))" by simp
    then show ?thesis by (rule extractClass_names)
  next
    case enm
    with "1.prems" show ?thesis by (simp add: enum_fragment_def split: option.splits)
  next
    case dflt
    with "1.prems" obtain c where c: "c \<in> set cs" "e \<in> set (snd (java_walk filePath c))"
      by (auto simp: Let_def)
    with dflt "1.IH" have "eto e \<in> set (java_type_names c)" by simp
    moreover have "set (java_type_names c) \<subseteq> set (java_type_names ?n)"
      using c(1) by (intro java_names_child) simp
    ultimately show ?thesis by blast
  qed
qed

text \<open>The walk pushes the text of a type identifier whatever that text is.\<close>

lemma java_type_identifier_pushed:
  "java_extractTypeIdentifiers (SyntaxNode ''type_identifier'' t nm row fld cs) = [t]"
  by (simp add: java_extractTypeIdentifiers_def)

section \<open>Facts about the TypeScript extractor\<close>

lemma ts_names_child:
  "c \<in> set (children n) \<Longrightarrow> set (ts_type_names c) \<subseteq> set (ts_type_names n)"
  using subnodes_child [of c n] by (auto simp: ts_type_names_def)

lemma ts_names_field:
  "childForFieldName n f = Some c \<Longrightarrow> set (ts_type_names c) \<subseteq> set (ts_type_names n)"
  by (rule ts_names_child) (rule childForFieldName_child)

lemma ts_type_walk_names: "set (ts_type_walk n) \<subseteq> set (ts_type_names n)"
proof (induction n rule: ts_type_walk.induct)
  case (1 ty tx nm row fld cs)
  let ?n = "SyntaxNode ty tx nm row fld cs"
  let ?push = "ty = ''type_identifier'' \<or> ty = ''identifier''
               \<or> ty = ''nested_type_identifier'' \<or> ty = ''member_expression''"
  have self: "?n \<in> set (subnodes ?n)" by (rule subnodes_self)
  show ?case
  proof (cases ?push)
    case True
    then have "ts_type_walk ?n = [tx]" by auto
    moreover from True self have "tx \<in> set (ts_type_names ?n)"
      by (force simp: ts_type_names_def simp del: subnodes.simps)
    ultimately show ?thesis by simp
  next
    case False
    have "set (ts_type_walk c) \<subseteq> set (ts_type_names ?n)" if "c \<in> set cs" for c
    proof -
      have "set (ts_type_walk c) \<subseteq> set (ts_type_names c)"
        using False that "1.IH" by auto
      moreover have "set (ts_type_names c) \<subseteq> set (ts_type_names ?n)"
        using that by (intro ts_names_child) simp
      ultimately show ?thesis by blast
    qed
    with False show ?thesis by auto
  qed
qed

lemma ts_edges_of_names:
  "e \<in> set (ts_edges_of sub owner k) \<Longrightarrow> eto e \<in> set (ts_type_names sub)"
  using ts_type_walk_names [of sub] by (auto simp: ts_edges_of_def ts_extractTypeIdentifiers_def)

lemma ts_field_edges_names:
  assumes "e \<in> set (ts_field_edges node f owner k)"
  shows "eto e \<in> set (ts_type_names node)"
proof (cases "childForFieldName node f")
  case None
  with assms show ?thesis by (simp add: ts_field_edges_def)
next
  case (Some sub)
  with assms have "eto e \<in> set (ts_type_names sub)"
    by (auto simp: ts_field_edges_def dest: ts_edges_of_names)
  then show ?thesis using ts_names_field [OF Some] by blast
qed

lemma ts_member_edges_names:
  assumes "e \<in> set (ts_member_edges owner member)"
  shows "eto e \<in> set (ts_type_names member)"
proof -
  let ?params = "case childForFieldName member ''parameters'' of
                  None \<Rightarrow> []
                | Some params \<Rightarrow>
                    concat (map (\<lambda>param. ts_field_edges param ''type'' owner Method_param)
                      (children params))"
  from assms consider
      "e \<in> set (ts_field_edges member ''type'' owner Field_type)"
    | "e \<in> set (ts_field_edges member ''return_type'' owner Method_return)"
    | "e \<in> set ?params"
    unfolding ts_member_edges_def
    by (cases "ntype member = ''public_field_definition'' \<or> ntype member = ''property_definition''
               \<or> ntype member = ''field_definition''";
        cases "ntype member = ''method_definition'' \<or> ntype member = ''method_signature''";
        cases "ntype member = ''property_signature''")
       auto
  then show ?thesis
  proof cases
    case 1 then show ?thesis by (rule ts_field_edges_names)
  next
    case 2 then show ?thesis by (rule ts_field_edges_names)
  next
    case 3
    then obtain params param where p: "childForFieldName member ''parameters'' = Some params"
      "param \<in> set (children params)" "e \<in> set (ts_field_edges param ''type'' owner Method_param)"
      by (cases "childForFieldName member ''parameters''") auto
    from p(3) have "eto e \<in> set (ts_type_names param)" by (rule ts_field_edges_names)
    then show ?thesis
      using ts_names_child [OF p(2)] ts_names_field [OF p(1)] by blast
  qed
qed

lemma ts_extractBodyMembers_names:
  assumes "e \<in> set (ts_extractBodyMembers body owner)"
  shows "eto e \<in> set (ts_type_names body)"
proof -
  from assms obtain member where m: "member \<in> set (children body)"
    "e \<in> set (ts_member_edges owner member)"
    by (auto simp: ts_extractBodyMembers_def)
  from m(2) have "eto e \<in> set (ts_type_names member)" by (rule ts_member_edges_names)
  then show ?thesis using ts_names_child [OF m(1)] by blast
qed

lemma ts_heritage_edges_names:
  assumes "e \<in> set (ts_heritage_edges owner child)"
  shows "eto e \<in> set (ts_type_names child)"
proof -
  let ?clauses = "concat (map (\<lambda>clause.
               (if ntype clause = ''extends_clause'' then ts_edges_of clause owner Extends else [])
               @ (if ntype clause = ''implements_clause''
                  then ts_edges_of clause owner Implements else []))
             (children child))"
  from assms consider
      "e \<in> set ?clauses"
    | k where "e \<in> set (ts_edges_of child owner k)"
    unfolding ts_heritage_edges_def
    by (cases "ntype child = ''class_heritage''";
        cases "ntype child = ''extends_clause'' \<or> ntype child = ''extends_type_clause''";
        cases "ntype child = ''implements_clause''")
       auto
  then show ?thesis
  proof cases
    case 1
    then obtain clause k where c: "clause \<in> set (children child)"
      "e \<in> set (ts_edges_of clause owner k)"
      by (auto split: if_splits)
    from c(2) have "eto e \<in> set (ts_type_names clause)" by (rule ts_edges_of_names)
    then show ?thesis using ts_names_child [OF c(1)] by blast
  next
    case 2 then show ?thesis by (rule ts_edges_of_names)
  qed
qed

lemma extractFromClassOrInterface_names:
  assumes "e \<in> set (snd (extractFromClassOrInterface node filePath k))"
  shows "eto e \<in> set (ts_type_names node)"
proof (cases "childForFieldName node ''name''")
  case None
  with assms show ?thesis by (simp add: extractFromClassOrInterface_def)
next
  case (Some nameNode)
  let ?o = "ntext nameNode"
  let ?body = "case childForFieldName node ''body'' of
                None \<Rightarrow> []
              | Some body \<Rightarrow> ts_extractBodyMembers body ?o"
  from assms Some consider
      "e \<in> set (concat (map (ts_heritage_edges ?o) (children node)))"
    | "e \<in> set ?body"
    by (auto simp: extractFromClassOrInterface_def)
  then show ?thesis
  proof cases
    case 1
    then obtain child where c: "child \<in> set (children node)"
      "e \<in> set (ts_heritage_edges ?o child)" by auto
    from c(2) have "eto e \<in> set (ts_type_names child)" by (rule ts_heritage_edges_names)
    then show ?thesis using ts_names_child [OF c(1)] by blast
  next
    case 2
    then obtain body where b: "childForFieldName node ''body'' = Some body"
      "e \<in> set (ts_extractBodyMembers body ?o)"
      by (cases "childForFieldName node ''body''") auto
    from b(2) have "eto e \<in> set (ts_type_names body)" by (rule ts_extractBodyMembers_names)
    then show ?thesis using ts_names_field [OF b(1)] by blast
  qed
qed

lemma type_alias_fragment_names:
  assumes "e \<in> set (snd (type_alias_fragment node filePath))"
  shows "eto e \<in> set (ts_type_names node)"
proof (cases "childForFieldName node ''name''")
  case None
  with assms show ?thesis by (simp add: type_alias_fragment_def)
next
  case (Some nameNode)
  with assms have "e \<in> set (ts_field_edges node ''value'' (ntext nameNode) Extends)"
    by (simp add: type_alias_fragment_def)
  then show ?thesis by (rule ts_field_edges_names)
qed

lemma ts_walk_names:
  "e \<in> set (snd (ts_walk filePath n)) \<Longrightarrow> eto e \<in> set (ts_type_names n)"
proof (induction filePath n rule: ts_walk.induct)
  case (1 filePath ty tx nm row fld cs)
  let ?n = "SyntaxNode ty tx nm row fld cs"
  show ?case
  proof (cases "ty = ''class_declaration'' \<or> ty = ''abstract_class_declaration''")
    case True
    with "1.prems" have "e \<in> set (snd (extractFromClassOrInterface ?n filePath Class))"
      by auto
    then show ?thesis by (rule extractFromClassOrInterface_names)
  next
    case ncls: False
    show ?thesis
    proof (cases "ty = ''interface_declaration''")
      case True
      with ncls "1.prems"
      have "e \<in> set (snd (extractFromClassOrInterface ?n filePath Interface))"
        by simp
      then show ?thesis by (rule extractFromClassOrInterface_names)
    next
      case nifc: False
      show ?thesis
      proof (cases "ty = ''type_alias_declaration''")
        case True
        with ncls nifc "1.prems" have "e \<in> set (snd (type_alias_fragment ?n filePath))"
          by simp
        then show ?thesis by (rule type_alias_fragment_names)
      next
        case nals: False
        show ?thesis
        proof (cases "ty = ''enum_declaration''")
          case True
          with ncls nifc nals "1.prems" have "e \<in> set (snd (enum_fragment ?n filePath))"
            by simp
          then show ?thesis by (simp add: enum_fragment_def split: option.splits)
        next
          case False
          with ncls nifc nals "1.prems"
          have "e \<in> set (concat (map snd (map (ts_walk filePath) cs)))"
            by (simp add: Let_def)
          then obtain c where c: "c \<in> set cs" "e \<in> set (snd (ts_walk filePath c))"
            by auto
          from "1.IH" [OF ncls nifc nals False c] have "eto e \<in> set (ts_type_names c)" .
          moreover have "set (ts_type_names c) \<subseteq> set (ts_type_names ?n)"
            using c(1) by (intro ts_names_child) simp
          ultimately show ?thesis by blast
        qed
      qed
    qed
  qed
qed

text \<open>The walk pushes the text of a type identifier whatever that text is.\<close>

lemma ts_type_identifier_pushed:
  "ts_extractTypeIdentifiers (SyntaxNode ''type_identifier'' t nm row fld cs) = [t]"
  by (simp add: ts_extractTypeIdentifiers_def)

section \<open>Facts about serialization\<close>

lemma serialize_nodes: "SerializeJSONArray (map node_object ns) = map node_json ns"
  by (induction ns) (simp_all add: node_object_def node_json_def)

lemma serialize_edges: "SerializeJSONArray (map edge_object es) = map edge_json es"
  by (induction es) (simp_all add: edge_object_def edge_json_def)

lemma parse_nodes: "parse_elements (map node_json ns) = map node_object ns"
  by (induction ns) (simp_all add: node_object_def node_json_def)

lemma parse_edges: "parse_elements (map edge_json es) = map edge_object es"
  by (induction es) (simp_all add: edge_object_def edge_json_def)

section \<open>Properties of the diff engine\<close>

text \<open>
  C4 (diff symmetry). For all graphs A and B, the nodes that \<open>diffGraphs A B\<close> reports as
  added are the nodes that \<open>diffGraphs B A\<close> reports as removed, in the same order, and
  likewise for the edges.
\<close>

theorem diff_symmetry:
  "addedNodes (diffGraphs A B) = removedNodes (diffGraphs B A) \<and>
   addedEdges (diffGraphs A B) = removedEdges (diffGraphs B A)"
  by (simp add: diffGraphs_def Let_def)

text \<open>
  C10 (diff entries come from their snapshot). Every added node is an element of the
  after graph's node list and every removed node an element of the before graph's, and
  likewise for the edges: an entry of the diff is the very record of its snapshot, with
  that snapshot's file and line.
\<close>

theorem diff_entries_from_snapshots:
  "set (addedNodes (diffGraphs before after)) \<subseteq> set (nodes after) \<and>
   set (removedNodes (diffGraphs before after)) \<subseteq> set (nodes before) \<and>
   set (addedEdges (diffGraphs before after)) \<subseteq> set (edges after) \<and>
   set (removedEdges (diffGraphs before after)) \<subseteq> set (edges before)"
  by (simp add: diffGraphs_def Let_def absent_from_values)

section \<open>Properties of graph assembly\<close>





text \<open>
  The condition on the names is needed for arbitrary strings only: two different edges
  between names that contain \<^verbatim>\<open>->\<close> can have one key string, and then the loop keeps
  the first. On the input below the edge from \<^verbatim>\<open>a->b\<close> to \<^verbatim>\<open>c\<close> has two declared,
  different ends and is dropped after the edge from \<^verbatim>\<open>a\<close> to \<^verbatim>\<open>b->c\<close>.
\<close>

lemma valid_edge_dropped_on_key_collision:
  "\<lparr> efrom = ''a->b'', eto = ''c'', ekind = Extends \<rparr> \<in> set collision_edges \<and>
   edge_valid (name ` set (nodes (filterAndDedupe env collision_nodes collision_edges dir sha)))
      \<lparr> efrom = ''a->b'', eto = ''c'', ekind = Extends \<rparr> \<and>
   edges (filterAndDedupe env collision_nodes collision_edges dir sha) =
      [\<lparr> efrom = ''a'', eto = ''b->c'', ekind = Extends \<rparr>] \<and>
   \<lparr> efrom = ''a->b'', eto = ''c'', ekind = Extends \<rparr>
      \<notin> set (edges (filterAndDedupe env collision_nodes collision_edges dir sha))"
proof -
  have a1: "edges (filterAndDedupe env collision_nodes collision_edges dir sha) =
      [\<lparr> efrom = ''a'', eto = ''b->c'', ekind = Extends \<rparr>]"
    by (simp add: filterAndDedupe_def edgeKey_def Let_def collision_nodes_def collision_edges_def)
  have a2: "edge_valid (name ` set (nodes (filterAndDedupe env collision_nodes collision_edges dir sha)))
      \<lparr> efrom = ''a->b'', eto = ''c'', ekind = Extends \<rparr>"
    by (simp add: filterAndDedupe_def edge_valid_def Let_def collision_nodes_def)
  show ?thesis
    by (simp add: a1 a2) (simp add: collision_edges_def)
qed

text \<open>
  C2 (two identity rules). Assembly keys nodes by name alone: the names of an assembled
  graph are distinct and the node it has for a name is the first input node of that name,
  so a later node with that name and another kind is discarded. The diff engine keys
  nodes by \<open>nodeKey\<close>, which identifies two nodes exactly when name and kind agree: a
  (name, kind) pair is reported as added exactly when the after graph has a node with it
  and the before graph has none, as removed exactly when the before graph has one and the
  after graph has none, and at most once in either list. So of two one-node snapshots
  whose nodes share the name and differ in kind, the diff reports the one node as removed
  and the other as added, where assembly would have kept the first only.
\<close>

theorem node_identity_rules_differ:
  "distinct (map name (nodes (filterAndDedupe env allNodes allEdges dir sha))) \<and>
   (\<forall>x. find (\<lambda>n. name n = x) (nodes (filterAndDedupe env allNodes allEdges dir sha)) =
        find (\<lambda>n. name n = x) allNodes) \<and>
   (find (\<lambda>n. name n = name n1) allNodes = Some n1 \<and> name n2 = name n1 \<and> kind n2 \<noteq> kind n1 \<longrightarrow>
      n1 \<in> set (nodes (filterAndDedupe env allNodes allEdges dir sha)) \<and>
      n2 \<notin> set (nodes (filterAndDedupe env allNodes allEdges dir sha))) \<and>
   (nodeKey n1 = nodeKey n2 \<longleftrightarrow> name n1 = name n2 \<and> kind n1 = kind n2) \<and>
   (nodes before = [n1] \<and> nodes after = [n2] \<and> name n2 = name n1 \<and> kind n2 \<noteq> kind n1 \<longrightarrow>
      addedNodes (diffGraphs before after) = [n2] \<and>
      removedNodes (diffGraphs before after) = [n1]) \<and>
   (\<forall>n :: GraphNode.
      ((\<exists>x \<in> set (addedNodes (diffGraphs before after)). name x = name n \<and> kind x = kind n) \<longleftrightarrow>
         (\<exists>x \<in> set (nodes after). name x = name n \<and> kind x = kind n) \<and>
         \<not> (\<exists>y \<in> set (nodes before). name y = name n \<and> kind y = kind n)) \<and>
      ((\<exists>y \<in> set (removedNodes (diffGraphs before after)). name y = name n \<and> kind y = kind n) \<longleftrightarrow>
         (\<exists>y \<in> set (nodes before). name y = name n \<and> kind y = kind n) \<and>
         \<not> (\<exists>x \<in> set (nodes after). name x = name n \<and> kind x = kind n))) \<and>
   distinct (map (\<lambda>n. (name n, kind n)) (addedNodes (diffGraphs before after))) \<and>
   distinct (map (\<lambda>n. (name n, kind n)) (removedNodes (diffGraphs before after)))"
proof -
  let ?G = "filterAndDedupe env allNodes allEdges dir sha"
  have d: "distinct (map name (nodes ?G))"
    by (simp only: filterAndDedupe_nodes firsts_distinct)
  have f: "\<forall>x. find (\<lambda>n. name n = x) (nodes ?G) = find (\<lambda>n. name n = x) allNodes"
    by (simp add: filterAndDedupe_nodes firsts_find)
  have c: "find (\<lambda>n. name n = name n1) allNodes = Some n1 \<and> name n2 = name n1 \<and> kind n2 \<noteq> kind n1 \<longrightarrow>
      n1 \<in> set (nodes ?G) \<and> n2 \<notin> set (nodes ?G)"
  proof
    assume h: "find (\<lambda>n. name n = name n1) allNodes = Some n1 \<and> name n2 = name n1 \<and> kind n2 \<noteq> kind n1"
    with f have g: "find (\<lambda>n. name n = name n1) (nodes ?G) = Some n1" by simp
    then have in1: "n1 \<in> set (nodes ?G)"
      by (auto simp: find_Some_iff)
    have "n2 \<notin> set (nodes ?G)"
    proof
      assume in2: "n2 \<in> set (nodes ?G)"
      from d have "inj_on name (set (nodes ?G))" by (simp add: distinct_map)
      with in1 in2 h have "n2 = n1" by (auto dest: inj_onD)
      with h show False by simp
    qed
    with in1 show "n1 \<in> set (nodes ?G) \<and> n2 \<notin> set (nodes ?G)" by simp
  qed
  have k: "nodeKey n1 = nodeKey n2 \<longleftrightarrow> name n1 = name n2 \<and> kind n1 = kind n2"
    by (rule nodeKey_eq_iff)
  have v: "nodes before = [n1] \<and> nodes after = [n2] \<and> name n2 = name n1 \<and> kind n2 \<noteq> kind n1 \<longrightarrow>
      addedNodes (diffGraphs before after) = [n2] \<and> removedNodes (diffGraphs before after) = [n1]"
  proof
    assume h: "nodes before = [n1] \<and> nodes after = [n2] \<and> name n2 = name n1 \<and> kind n2 \<noteq> kind n1"
    then have "nodeKey n1 \<noteq> nodeKey n2" "nodeKey n2 \<noteq> nodeKey n1"
      by (auto simp: nodeKey_eq_iff)
    with h show "addedNodes (diffGraphs before after) = [n2] \<and>
        removedNodes (diffGraphs before after) = [n1]"
      by (simp add: diffGraphs_def Let_def new_Map_def absent_from_def)
  qed
  have q: "\<forall>n :: GraphNode.
      ((\<exists>x \<in> set (addedNodes (diffGraphs before after)). name x = name n \<and> kind x = kind n) \<longleftrightarrow>
         (\<exists>x \<in> set (nodes after). name x = name n \<and> kind x = kind n) \<and>
         \<not> (\<exists>y \<in> set (nodes before). name y = name n \<and> kind y = kind n)) \<and>
      ((\<exists>y \<in> set (removedNodes (diffGraphs before after)). name y = name n \<and> kind y = kind n) \<longleftrightarrow>
         (\<exists>y \<in> set (nodes before). name y = name n \<and> kind y = kind n) \<and>
         \<not> (\<exists>x \<in> set (nodes after). name x = name n \<and> kind x = kind n))"
    by (rule allI) (rule diff_nodes_by_key)
  have d1: "distinct (map (\<lambda>n. (name n, kind n)) (addedNodes (diffGraphs before after)))"
    and d2: "distinct (map (\<lambda>n. (name n, kind n)) (removedNodes (diffGraphs before after)))"
    using diff_nodes_distinct [of before after] by simp_all
  show ?thesis
    by (intro conjI) (rule d, rule f, rule c, rule k, rule v, rule q, rule d1, rule d2)
qed

theorem node_identity_rules_differ_witness:
  "\<lparr> name = ''Foo'', kind = Class, nfile = ''test.ts'', line = 1 \<rparr>
     \<in> set (nodes (filterAndDedupe (env_at ''2026-01-01T00:00:00.000Z'')
        (nodes (makeGraph [(''Foo'', Class), (''Foo'', Interface)] [])) [] ''.'' None)) \<and>
   \<lparr> name = ''Foo'', kind = Interface, nfile = ''test.ts'', line = 1 \<rparr>
     \<notin> set (nodes (filterAndDedupe (env_at ''2026-01-01T00:00:00.000Z'')
        (nodes (makeGraph [(''Foo'', Class), (''Foo'', Interface)] [])) [] ''.'' None)) \<and>
   addedNodes (diffGraphs (makeGraph [(''Foo'', Class)] []) (makeGraph [(''Foo'', Interface)] [])) =
     [\<lparr> name = ''Foo'', kind = Interface, nfile = ''test.ts'', line = 1 \<rparr>] \<and>
   removedNodes (diffGraphs (makeGraph [(''Foo'', Class)] []) (makeGraph [(''Foo'', Interface)] [])) =
     [\<lparr> name = ''Foo'', kind = Class, nfile = ''test.ts'', line = 1 \<rparr>] \<and>
   addedNodes (diffGraphs (makeGraph [(''Foo'', Class)] [])
     (makeGraph [(''Foo'', Class), (''Foo'', Interface), (''Foo'', Class)] [])) =
     [\<lparr> name = ''Foo'', kind = Interface, nfile = ''test.ts'', line = 1 \<rparr>]"
proof -
  have w: "\<lparr> name = ''Foo'', kind = Class, nfile = ''test.ts'', line = 1 \<rparr>
     \<in> set (nodes (filterAndDedupe (env_at ''2026-01-01T00:00:00.000Z'')
        (nodes (makeGraph [(''Foo'', Class), (''Foo'', Interface)] [])) [] ''.'' None)) \<and>
   \<lparr> name = ''Foo'', kind = Interface, nfile = ''test.ts'', line = 1 \<rparr>
     \<notin> set (nodes (filterAndDedupe (env_at ''2026-01-01T00:00:00.000Z'')
        (nodes (makeGraph [(''Foo'', Class), (''Foo'', Interface)] [])) [] ''.'' None))"
    using node_identity_rules_differ [of
      "env_at ''2026-01-01T00:00:00.000Z''"
      "nodes (makeGraph [(''Foo'', Class), (''Foo'', Interface)] [])"
      "[]" "''.''" None
      "\<lparr> name = ''Foo'', kind = Class, nfile = ''test.ts'', line = 1 \<rparr>"
      "\<lparr> name = ''Foo'', kind = Interface, nfile = ''test.ts'', line = 1 \<rparr>",
      THEN conjunct2, THEN conjunct2, THEN conjunct1]
    by (simp add: makeGraph_def)
  have x: "addedNodes (diffGraphs (makeGraph [(''Foo'', Class)] []) (makeGraph [(''Foo'', Interface)] [])) =
     [\<lparr> name = ''Foo'', kind = Interface, nfile = ''test.ts'', line = 1 \<rparr>] \<and>
   removedNodes (diffGraphs (makeGraph [(''Foo'', Class)] []) (makeGraph [(''Foo'', Interface)] [])) =
     [\<lparr> name = ''Foo'', kind = Class, nfile = ''test.ts'', line = 1 \<rparr>]"
    using node_identity_rules_differ [of _ _ _ _ _
      "\<lparr> name = ''Foo'', kind = Class, nfile = ''test.ts'', line = 1 \<rparr>"
      "\<lparr> name = ''Foo'', kind = Interface, nfile = ''test.ts'', line = 1 \<rparr>"
      "makeGraph [(''Foo'', Class)] []"
      "makeGraph [(''Foo'', Interface)] []",
      THEN conjunct2, THEN conjunct2, THEN conjunct2, THEN conjunct2, THEN conjunct1]
    by (simp add: makeGraph_def)
  have y: "addedNodes (diffGraphs (makeGraph [(''Foo'', Class)] [])
     (makeGraph [(''Foo'', Class), (''Foo'', Interface), (''Foo'', Class)] [])) =
     [\<lparr> name = ''Foo'', kind = Interface, nfile = ''test.ts'', line = 1 \<rparr>]"
    by (simp add: makeGraph_def diffGraphs_def Let_def new_Map_def absent_from_def nodeKey_def)
  from w x y show ?thesis by simp
qed

text \<open>
  C5 (assembly as a pure function), as stated, fails: the graph carries the reading of
  the clock, so two runs on the same node list, edge list and revision id at different
  instants give different graphs.
\<close>

theorem assembly_purity_counterexample:
  "filterAndDedupe (env_at ''2026-01-01T00:00:00.000Z'') [] [] ''.'' None \<noteq>
   filterAndDedupe (env_at ''2026-01-01T00:00:01.000Z'') [] [] ''.'' None"
  by (simp add: filterAndDedupe_def Let_def env_at_def)

text \<open>
  C5, amended. The nodes and the edges of the assembled graph depend on the node list
  and the edge list alone, whatever the environment, the directory and the revision id.
  The timestamp is the reading of the clock; the commit id is the revision id when one is
  passed, and otherwise what \<^verbatim>\<open>git rev-parse HEAD\<close> gives in the scanned directory.
\<close>

theorem assembly_pure_up_to_stamp:
  "nodes (filterAndDedupe env1 allNodes allEdges dir1 sha1) =
     nodes (filterAndDedupe env2 allNodes allEdges dir2 sha2) \<and>
   edges (filterAndDedupe env1 allNodes allEdges dir1 sha1) =
     edges (filterAndDedupe env2 allNodes allEdges dir2 sha2) \<and>
   scannedAt (filterAndDedupe env1 allNodes allEdges dir1 sha1) = now_iso env1 \<and>
   commitSha (filterAndDedupe env1 allNodes allEdges dir1 (Some s)) = Some s \<and>
   commitSha (filterAndDedupe env1 allNodes allEdges dir1 None) = git_head env1 dir1"
  by (simp add: filterAndDedupe_def Let_def getCommitSha_def)

section \<open>Kind changes in the diff\<close>

text \<open>
  C7 (a kind change is a removal plus an addition), as stated, fails: the after graph may
  have an edge of another kind between the two ends and still have the old edge, and
  then nothing is removed.
\<close>

theorem kind_change_counterexample:
  "\<lparr> efrom = ''A'', eto = ''B'', ekind = Extends \<rparr>
     \<in> set (edges (makeGraph [(''A'', Class), (''B'', Class)]
          [\<lparr> efrom = ''A'', eto = ''B'', ekind = Extends \<rparr>])) \<and>
   \<lparr> efrom = ''A'', eto = ''B'', ekind = Field_type \<rparr>
     \<in> set (edges (makeGraph [(''A'', Class), (''B'', Class)]
          [\<lparr> efrom = ''A'', eto = ''B'', ekind = Extends \<rparr>,
           \<lparr> efrom = ''A'', eto = ''B'', ekind = Field_type \<rparr>])) \<and>
   removedEdges (diffGraphs
      (makeGraph [(''A'', Class), (''B'', Class)]
          [\<lparr> efrom = ''A'', eto = ''B'', ekind = Extends \<rparr>])
      (makeGraph [(''A'', Class), (''B'', Class)]
          [\<lparr> efrom = ''A'', eto = ''B'', ekind = Extends \<rparr>,
           \<lparr> efrom = ''A'', eto = ''B'', ekind = Field_type \<rparr>])) = []"
  by (simp add: makeGraph_def diffGraphs_def Let_def new_Map_def absent_from_def edgeKey_def)

text \<open>
  C7, amended. Let the before graph have an edge and the after graph an edge between the
  same ends with another kind, let the old edge be gone from the after graph and the new
  one be absent from the before graph, and let no two different edges of the two
  snapshots have the same key string. Then the old edge occurs exactly once among the
  removed edges and the new edge exactly once among the added edges, the old edge is not
  reported as added and the new one not as removed. A \<open>GraphDiff\<close> has no other
  collection in which a changed edge could be reported.
\<close>

theorem kind_change_is_remove_plus_add:
  assumes "old \<in> set (edges before)" and "new \<in> set (edges after)"
    and "efrom new = efrom old" and "eto new = eto old" and "ekind new \<noteq> ekind old"
    and "old \<notin> set (edges after)" and "new \<notin> set (edges before)"
    and inj: "inj_on edgeKey (set (edges before) \<union> set (edges after))"
  shows "count_list (removedEdges (diffGraphs before after)) old = 1 \<and>
         count_list (addedEdges (diffGraphs before after)) new = 1 \<and>
         old \<notin> set (addedEdges (diffGraphs before after)) \<and>
         new \<notin> set (removedEdges (diffGraphs before after))"
proof -
  let ?B = "new_Map (map (\<lambda>e. (edgeKey e, e)) (edges before))"
  let ?A = "new_Map (map (\<lambda>e. (edgeKey e, e)) (edges after))"
  have rem: "removedEdges (diffGraphs before after) = absent_from ?A ?B"
    and add: "addedEdges (diffGraphs before after) = absent_from ?B ?A"
    by (simp_all add: diffGraphs_def Let_def)
  have injB: "inj_on edgeKey (set (edges before))" and injA: "inj_on edgeKey (set (edges after))"
    using inj by (auto intro: inj_on_subset)
  have "edgeKey old \<notin> edgeKey ` set (edges after)"
  proof
    assume "edgeKey old \<in> edgeKey ` set (edges after)"
    then obtain a where a: "a \<in> set (edges after)" "edgeKey old = edgeKey a" by auto
    with inj assms(1) have "old = a" by (auto dest: inj_onD)
    with a(1) assms(6) show False by simp
  qed
  then have "\<not> map_has ?A (edgeKey old)"
    by (simp add: map_has_iff new_Map_keys image_image)
  with assms(1) injB have "old \<in> set (absent_from ?A ?B)" by (rule absent_from_member)
  then have c1: "count_list (removedEdges (diffGraphs before after)) old = 1"
    unfolding rem using absent_from_distinct by (rule count_list_distinct [rotated])
  have "edgeKey new \<notin> edgeKey ` set (edges before)"
  proof
    assume "edgeKey new \<in> edgeKey ` set (edges before)"
    then obtain b where b: "b \<in> set (edges before)" "edgeKey new = edgeKey b" by auto
    with inj assms(2) have "new = b" by (auto dest: inj_onD)
    with b(1) assms(7) show False by simp
  qed
  then have "\<not> map_has ?B (edgeKey new)"
    by (simp add: map_has_iff new_Map_keys image_image)
  with assms(2) injA have "new \<in> set (absent_from ?B ?A)" by (rule absent_from_member)
  then have c2: "count_list (addedEdges (diffGraphs before after)) new = 1"
    unfolding add using absent_from_distinct by (rule count_list_distinct [rotated])
  have c3: "old \<notin> set (addedEdges (diffGraphs before after))"
    unfolding add using absent_from_values [of ?B edgeKey "edges after"] assms(6) by blast
  have c4: "new \<notin> set (removedEdges (diffGraphs before after))"
    unfolding rem using absent_from_values [of ?A edgeKey "edges before"] assms(7) by blast
  from c1 c2 c3 c4 show ?thesis by simp
qed


theorem kind_change_is_remove_plus_add_witness:
  "count_list (removedEdges (diffGraphs
      (makeGraph [(''A'', Class), (''B'', Class)] [\<lparr> efrom = ''A'', eto = ''B'', ekind = Extends \<rparr>])
      (makeGraph [(''A'', Class), (''B'', Class)] [\<lparr> efrom = ''A'', eto = ''B'', ekind = Field_type \<rparr>])))
      \<lparr> efrom = ''A'', eto = ''B'', ekind = Extends \<rparr> = 1 \<and>
   count_list (addedEdges (diffGraphs
      (makeGraph [(''A'', Class), (''B'', Class)] [\<lparr> efrom = ''A'', eto = ''B'', ekind = Extends \<rparr>])
      (makeGraph [(''A'', Class), (''B'', Class)] [\<lparr> efrom = ''A'', eto = ''B'', ekind = Field_type \<rparr>])))
      \<lparr> efrom = ''A'', eto = ''B'', ekind = Field_type \<rparr> = 1"
  using kind_change_is_remove_plus_add [of
      "\<lparr> efrom = ''A'', eto = ''B'', ekind = Extends \<rparr>"
      "makeGraph [(''A'', Class), (''B'', Class)] [\<lparr> efrom = ''A'', eto = ''B'', ekind = Extends \<rparr>]"
      "\<lparr> efrom = ''A'', eto = ''B'', ekind = Field_type \<rparr>"
      "makeGraph [(''A'', Class), (''B'', Class)] [\<lparr> efrom = ''A'', eto = ''B'', ekind = Field_type \<rparr>]"]
  by (simp add: makeGraph_def edgeKey_def)

section \<open>Failures during the directory scan\<close>

text \<open>
  C9 (a failing file does not abort the scan). Let a file have a parser and let reading
  or parsing it throw. Then the loop reaches its end with the nodes and the edges it
  would have collected had the file not been listed, so the file adds nothing and the
  files after it are scanned as before; the warning that names the file and the error is
  among the lines written to the error stream; and \<open>scanDirectory\<close> returns the graph it
  returns without the file. The loop is a total function of the file list: no outcome of
  a file makes it stop.
\<close>

theorem failing_file_is_skipped:
  assumes p: "getParserForFile langs file = Some parser"
    and e: "parse_file fs parser (resolve fs absDir file) (relative fs absDir (resolve fs absDir file)) = Inl err"
  shows "nodes_acc (scan_files fs langs absDir st (pre @ file # post)) =
           nodes_acc (scan_files fs langs absDir st (pre @ post)) \<and>
         edges_acc (scan_files fs langs absDir st (pre @ file # post)) =
           edges_acc (scan_files fs langs absDir st (pre @ post)) \<and>
         warning (relative fs absDir (resolve fs absDir file)) err
           \<in> set (stderr_out (scan_files fs langs absDir st (pre @ file # post))) \<and>
         warning (relative fs absDir (resolve fs absDir file)) err
           \<in> set (snd (scanDirectory env fs langs absDir (pre @ file # post))) \<and>
         fst (scanDirectory env fs langs absDir (pre @ file # post)) =
           fst (scanDirectory env fs langs absDir (pre @ post))"
proof -
  have frag: "file_fragment fs langs absDir file = ([], [])"
    by (simp add: file_fragment_def p e)
  have acc: "nodes_acc (scan_files fs langs absDir s (pre @ file # post)) =
               nodes_acc (scan_files fs langs absDir s (pre @ post)) \<and>
             edges_acc (scan_files fs langs absDir s (pre @ file # post)) =
               edges_acc (scan_files fs langs absDir s (pre @ post))" for s
    by (simp add: scan_files_acc frag)
  have w: "warning (relative fs absDir (resolve fs absDir file)) err
             \<in> set (stderr_out (scan_files fs langs absDir s (pre @ file # post)))" for s
  proof -
    let ?s1 = "scan_files fs langs absDir s pre"
    have "warning (relative fs absDir (resolve fs absDir file)) err
            \<in> set (stderr_out (scan_step fs langs absDir ?s1 file))"
      by (simp add: scan_step_def Let_def p e)
    then have "warning (relative fs absDir (resolve fs absDir file)) err
            \<in> set (stderr_out (scan_files fs langs absDir (scan_step fs langs absDir ?s1 file) post))"
      using scan_files_stderr by blast
    then show ?thesis by (simp add: scan_files_append)
  qed
  show ?thesis
    using acc [of st] w [of st]
      acc [of "\<lparr> nodes_acc = [], edges_acc = [], stderr_out = [] \<rparr>"]
      w [of "\<lparr> nodes_acc = [], edges_acc = [], stderr_out = [] \<rparr>"]
    by (simp add: scanDirectory_def Let_def)
qed


theorem failing_file_is_skipped_witness:
  "''Warning: Failed to parse bad.ts: Error: Invalid argument''
     \<in> set (snd (scanDirectory (env_at ''2026-01-01T00:00:00.000Z'') toy_fs
          (LANGUAGES toy_parse toy_parse toy_parse) ''/p'' [''bad.ts'', ''good.ts''])) \<and>
   fst (scanDirectory (env_at ''2026-01-01T00:00:00.000Z'') toy_fs
          (LANGUAGES toy_parse toy_parse toy_parse) ''/p'' [''bad.ts'', ''good.ts'']) =
   fst (scanDirectory (env_at ''2026-01-01T00:00:00.000Z'') toy_fs
          (LANGUAGES toy_parse toy_parse toy_parse) ''/p'' [''good.ts'']) \<and>
   map name (nodes (fst (scanDirectory (env_at ''2026-01-01T00:00:00.000Z'') toy_fs
          (LANGUAGES toy_parse toy_parse toy_parse) ''/p'' [''bad.ts'', ''good.ts'']))) = [''Valid'']"
proof -
  have p: "getParserForFile (LANGUAGES toy_parse toy_parse toy_parse) ''bad.ts'' = Some toy_parse"
    by (simp add: LANGUAGES_def TYPESCRIPT_EXTENSIONS_def endsWith_def)
  have e: "parse_file toy_fs toy_parse (resolve toy_fs ''/p'' ''bad.ts'')
             (relative toy_fs ''/p'' (resolve toy_fs ''/p'' ''bad.ts'')) = Inl ''Error: Invalid argument''"
    by (simp add: parse_file_def toy_fs_def toy_parse_def)
  have r: "relative toy_fs ''/p'' (resolve toy_fs ''/p'' ''bad.ts'') = ''bad.ts''"
    by (simp add: toy_fs_def)
  have g: "map name (nodes (fst (scanDirectory (env_at ''2026-01-01T00:00:00.000Z'') toy_fs
          (LANGUAGES toy_parse toy_parse toy_parse) ''/p'' [''good.ts'']))) = [''Valid'']"
    by (simp add: scanDirectory_def LANGUAGES_def TYPESCRIPT_EXTENSIONS_def endsWith_def
        scan_step_def Let_def parse_file_def toy_fs_def toy_parse_def filterAndDedupe_def)
  show ?thesis
    using failing_file_is_skipped [OF p e, of
        "\<lparr> nodes_acc = [], edges_acc = [], stderr_out = [] \<rparr>" "[]" "[''good.ts'']"
        "env_at ''2026-01-01T00:00:00.000Z''"] g
    by (simp add: r warning_def)
qed

section \<open>Built-in types in the extractors\<close>

text \<open>
  C8 (built-in types never become edge targets), as stated for every extractor, fails
  for Swift: its extractor has no list of built-in types, and for the file
  \<^verbatim>\<open>class IntStack: Stack<Int> { func count() -> Int { return 0 } }\<close> it emits two
  edges whose target is \<^verbatim>\<open>Int\<close>.
\<close>

theorem swift_emits_edge_to_builtin:
  "snd (swift_parseSource swift_example ''IntStack.swift'') =
     [\<lparr> efrom = ''IntStack'', eto = ''Stack'', ekind = Implements \<rparr>,
      \<lparr> efrom = ''IntStack'', eto = ''Int'', ekind = Implements \<rparr>,
      \<lparr> efrom = ''IntStack'', eto = ''Int'', ekind = Method_return \<rparr>]"
  by (simp add: swift_parseSource_def swift_example_def inner_def leaf_def tok_def
      swift_extractDeclaration_def childForFieldName_def is_inheritance_def
      swift_extractTypeIdentifiers_def swift_extractBodyMembers_def swift_member_edges_def)

text \<open>
  C8, amended. Go is the one extractor with an allow-list: for every syntax tree and file
  path, no edge that the Go extractor emits has a member of \<open>BUILTIN_TYPES\<close> as its
  target. The Java and the TypeScript extractor have no list of built-in types, and for
  every syntax tree the target of every edge they emit is the text of a type-identifier
  node of that tree: for Java a \<^verbatim>\<open>type_identifier\<close> or the name of a
  \<^verbatim>\<open>scoped_type_identifier\<close>, for TypeScript a \<^verbatim>\<open>type_identifier\<close>, an
  \<^verbatim>\<open>identifier\<close>, a \<^verbatim>\<open>nested_type_identifier\<close> or a \<^verbatim>\<open>member_expression\<close>. So for
  any set of primitive type names, a tree in which no such node carries one of these
  names gives no edge whose target is one of them.
\<close>

theorem extractor_edges_avoid_builtin_types:
  "(\<forall>e \<in> set (snd (go_parseSource goTree filePath)). eto e \<notin> BUILTIN_TYPES) \<and>
   (\<forall>e \<in> set (snd (java_parseSource javaTree filePath)).
      eto e \<in> set (java_type_names javaTree)) \<and>
   (\<forall>e \<in> set (snd (ts_parseSource tsTree filePath)).
      eto e \<in> set (ts_type_names tsTree)) \<and>
   ((\<forall>t \<in> set (java_type_names javaTree). t \<notin> primitives) \<longrightarrow>
      (\<forall>e \<in> set (snd (java_parseSource javaTree filePath)). eto e \<notin> primitives)) \<and>
   ((\<forall>t \<in> set (ts_type_names tsTree). t \<notin> primitives) \<longrightarrow>
      (\<forall>e \<in> set (snd (ts_parseSource tsTree filePath)). eto e \<notin> primitives))"
proof -
  have go: "\<forall>e \<in> set (snd (go_parseSource goTree filePath)). eto e \<notin> BUILTIN_TYPES"
  proof
    fix e
    assume "e \<in> set (snd (go_parseSource goTree filePath))"
    then obtain child where "e \<in> set (snd (go_top_fragment filePath child))"
      by (auto simp: go_parseSource_def Let_def)
    then have "isUserType (eto e)" by (rule go_top_fragment_user)
    then show "eto e \<notin> BUILTIN_TYPES" by (simp add: isUserType_def)
  qed
  have java: "\<forall>e \<in> set (snd (java_parseSource javaTree filePath)).
      eto e \<in> set (java_type_names javaTree)"
    unfolding java_parseSource_def by (blast intro: java_walk_names)
  have ts: "\<forall>e \<in> set (snd (ts_parseSource tsTree filePath)).
      eto e \<in> set (ts_type_names tsTree)"
    unfolding ts_parseSource_def by (blast intro: ts_walk_names)
  from java have javaP: "(\<forall>t \<in> set (java_type_names javaTree). t \<notin> primitives) \<longrightarrow>
      (\<forall>e \<in> set (snd (java_parseSource javaTree filePath)). eto e \<notin> primitives)"
    by blast
  from ts have tsP: "(\<forall>t \<in> set (ts_type_names tsTree). t \<notin> primitives) \<longrightarrow>
      (\<forall>e \<in> set (snd (ts_parseSource tsTree filePath)). eto e \<notin> primitives)"
    by blast
  show ?thesis by (intro conjI) (rule go, rule java, rule ts, rule javaP, rule tsP)
qed

text \<open>
  The theorem at the trees of three files. In
  \<^verbatim>\<open>type User struct { Name string; Addr Address }\<close> the Go extractor drops the field
  of type \<^verbatim>\<open>string\<close>. In \<^verbatim>\<open>class UserService { private int count; private Repo repo; }\<close>
  the type \<^verbatim>\<open>int\<close> is an \<^verbatim>\<open>integral_type\<close> node, and in
  \<^verbatim>\<open>class Account { id: number; owner: User }\<close> the type \<^verbatim>\<open>number\<close> is a
  \<^verbatim>\<open>predefined_type\<close> node; neither is reached by the type walk.
\<close>

theorem extractor_edges_avoid_builtin_types_witness:
  "snd (go_parseSource go_example ''user.go'') =
     [\<lparr> efrom = ''User'', eto = ''Address'', ekind = Field_type \<rparr>] \<and>
   ''Address'' \<notin> BUILTIN_TYPES \<and> ''string'' \<in> BUILTIN_TYPES \<and>
   snd (java_parseSource java_example ''UserService.java'') =
     [\<lparr> efrom = ''UserService'', eto = ''Repo'', ekind = Field_type \<rparr>] \<and>
   java_type_names java_example = [''Repo''] \<and>
   ''Repo'' \<notin> java_primitives \<and> ''int'' \<in> java_primitives \<and>
   snd (ts_parseSource ts_example ''account.ts'') =
     [\<lparr> efrom = ''Account'', eto = ''User'', ekind = Field_type \<rparr>] \<and>
   ts_type_names ts_example = [''Account'', ''User''] \<and>
   ''User'' \<notin> ts_primitives \<and> ''number'' \<in> ts_primitives"
proof -
  have go_ev: "snd (go_parseSource go_example ''user.go'') =
      [\<lparr> efrom = ''User'', eto = ''Address'', ekind = Field_type \<rparr>]"
    by (simp add: go_parseSource_def go_example_def inner_def leaf_def tok_def go_top_fragment_def
        type_spec_fragment_def childForFieldName_def extractStruct_def findChild_def Let_def
        struct_field_edges_def extractAllTypeIdentifiers_def extractTypeIdentifier_def truthy_def
        isUserType_def BUILTIN_TYPES_def)
  have java_ev: "snd (java_parseSource java_example ''UserService.java'') =
      [\<lparr> efrom = ''UserService'', eto = ''Repo'', ekind = Field_type \<rparr>]"
    by (simp add: java_parseSource_def java_example_def inner_def leaf_def tok_def
        extractClass_def childForFieldName_def java_member_edges_def java_field_edges_def
        java_extractTypeIdentifiers_def)
  have java_names: "java_type_names java_example = [''Repo'']"
    by (simp add: java_type_names_def java_example_def inner_def leaf_def tok_def
        childForFieldName_def)
  have ts_ev: "snd (ts_parseSource ts_example ''account.ts'') =
      [\<lparr> efrom = ''Account'', eto = ''User'', ekind = Field_type \<rparr>]"
    by (simp add: ts_parseSource_def ts_example_def inner_def leaf_def tok_def
        extractFromClassOrInterface_def childForFieldName_def ts_heritage_edges_def
        ts_extractBodyMembers_def ts_member_edges_def ts_field_edges_def ts_edges_of_def
        ts_extractTypeIdentifiers_def)
  have ts_names: "ts_type_names ts_example = [''Account'', ''User'']"
    by (simp add: ts_type_names_def ts_example_def inner_def leaf_def tok_def)
  have java_hyp: "\<forall>t \<in> set (java_type_names java_example). t \<notin> java_primitives"
    by (simp add: java_names java_primitives_def)
  have ts_hyp: "\<forall>t \<in> set (ts_type_names ts_example). t \<notin> ts_primitives"
    by (simp add: ts_names ts_primitives_def)
  have "''Address'' \<notin> BUILTIN_TYPES"
    using extractor_edges_avoid_builtin_types
      [where goTree = go_example and filePath = "''user.go''", THEN conjunct1]
    by (simp add: go_ev)
  moreover have "''Repo'' \<notin> java_primitives"
    using extractor_edges_avoid_builtin_types
      [where javaTree = java_example and filePath = "''UserService.java''"
         and primitives = java_primitives,
       THEN conjunct2, THEN conjunct2, THEN conjunct2, THEN conjunct1] java_hyp
    by (simp add: java_ev)
  moreover have "''User'' \<notin> ts_primitives"
    using extractor_edges_avoid_builtin_types
      [where tsTree = ts_example and filePath = "''account.ts''" and primitives = ts_primitives,
       THEN conjunct2, THEN conjunct2, THEN conjunct2, THEN conjunct2] ts_hyp
    by (simp add: ts_ev)
  moreover have "''string'' \<in> BUILTIN_TYPES" by (simp add: BUILTIN_TYPES_def)
  moreover have "''int'' \<in> java_primitives" by (simp add: java_primitives_def)
  moreover have "''number'' \<in> ts_primitives" by (simp add: ts_primitives_def)
  ultimately show ?thesis using go_ev java_ev java_names ts_ev ts_names by simp
qed

section \<open>The serialization round trip\<close>

text \<open>
  C6 (round trip), as stated for every graph, fails for the graph that assembly returns
  when no commit id is found: its \<^verbatim>\<open>commitSha\<close> property has the value \<^verbatim>\<open>undefined\<close>,
  \<^verbatim>\<open>JSON.stringify\<close> leaves the property out, and the parsed object lacks it.
\<close>

theorem round_trip_counterexample:
  "map_option deserializeGraph
     (serializeGraph (assembled_object (filterAndDedupe (env_at ''2026-01-01T00:00:00.000Z'') [] [] ''.'' None))) \<noteq>
   Some (assembled_object (filterAndDedupe (env_at ''2026-01-01T00:00:00.000Z'') [] [] ''.'' None))"
  by (simp add: serializeGraph_def deserializeGraph_def JSON_stringify_def assembled_object_def
      filterAndDedupe_def Let_def env_at_def getCommitSha_def)

text \<open>
  C6, amended. For every graph object whose \<^verbatim>\<open>commitSha\<close> property is a string or
  absent, and whose line numbers are integers, parsing the serialized form gives the
  object back. For the object that assembly returns, parsing the serialized form gives
  the graph object with the same nodes, edges, timestamp and commit id, without the
  property when there is no commit id.
\<close>

theorem round_trip_of_graph_objects:
  "map_option deserializeGraph (serializeGraph (graph_object g)) = Some (graph_object g) \<and>
   map_option deserializeGraph (serializeGraph (assembled_object g)) = Some (graph_object g)"
  by (cases "commitSha g")
     (simp_all add: serializeGraph_def deserializeGraph_def JSON_stringify_def graph_object_def
        assembled_object_def serialize_nodes serialize_edges parse_nodes parse_edges)

end
